theory Spec2Isabelle
  imports Complex_Main
begin

unbundle bit_operations_syntax

section \<open>The program\<close>

subsection \<open>Numbers\<close>

text \<open>
  The program computes with JavaScript numbers. They are modelled as mathematical reals:
  rounding error, infinities and NaN are outside the model. Where the source divides by a
  quantity that can be zero, the model says what the source does there, since \<open>x / 0 = 0\<close>
  in HOL; the quotient in the estimator's interpolation is a \<open>jsNumber\<close>, which can be
  Infinity or NaN.

  \<open>Math.round\<close> rounds to the nearest integer, a half going up.
\<close>

definition js_round :: "real \<Rightarrow> real" where
  "js_round x = of_int \<lfloor>x + 1 / 2\<rfloor>"

text \<open>\<open>Math.round(x * 10) / 10\<close> and \<open>Math.round(x * 100) / 100\<close>.\<close>

definition round1 :: "real \<Rightarrow> real" where
  "round1 x = js_round (x * 10) / 10"

definition round2 :: "real \<Rightarrow> real" where
  "round2 x = js_round (x * 100) / 100"

subsection \<open>String physics (lib/audioAnalysis.ts)\<close>

definition MATERIAL_DENSITIES :: "string \<rightharpoonup> real" where
  "MATERIAL_DENSITIES =
     [''Polyester'' \<mapsto> 1380, ''Nylon'' \<mapsto> 1140, ''NaturalGut'' \<mapsto> 1320,
      ''Multifilament'' \<mapsto> 1150, ''Kevlar'' \<mapsto> 1440]"

definition GAUGE_TO_MM :: "int \<rightharpoonup> real" where
  "GAUGE_TO_MM = [15 \<mapsto> 1.45, 16 \<mapsto> 1.30, 17 \<mapsto> 1.20, 18 \<mapsto> 1.10, 19 \<mapsto> 1.00]"

text \<open>
  \<open>normalizeGaugeMm\<close>. The source tests \<open>if (mm)\<close> and \<open>if (nextMm)\<close>: a missing key gives
  \<open>undefined\<close>, and every tabulated diameter is non-zero, so the test is the one for a
  present key.
\<close>

definition normalizeGaugeMm :: "real \<Rightarrow> real" where
  "normalizeGaugeMm v =
     (if v < 3 then v
      else let floored = \<lfloor>v\<rfloor> in
        (case GAUGE_TO_MM floored of
           Some mm \<Rightarrow>
             (if v \<noteq> of_int floored
              then (case GAUGE_TO_MM (floored + 1) of
                      Some nextMm \<Rightarrow> mm + (nextMm - mm) * (v - of_int floored)
                    | None \<Rightarrow> mm)
              else mm)
         | None \<Rightarrow> 1.25))"

definition calculateLinearDensity :: "real \<Rightarrow> real \<Rightarrow> real" where
  "calculateLinearDensity gaugeMm materialDensity =
     (let radiusM = (gaugeMm / 2) / 1000;
          crossSectionArea = pi * radiusM * radiusM
      in crossSectionArea * materialDensity)"

definition estimateStringLength :: "real \<Rightarrow> real" where
  "estimateStringLength headSizeSqIn =
     (let areaM2 = headSizeSqIn * 0.00064516;
          ratio = 1.45;
          semiMajor = sqrt ((areaM2 * ratio) / pi);
          fullLength = 2 * semiMajor
      in fullLength * 0.96)"

definition crossStringMassLoadingFactor :: "real \<Rightarrow> real" where
  "crossStringMassLoadingFactor crosses =
     (let baseline = 19; perCross = 0.0015 in 1 + (crosses - baseline) * perCross)"

record tension =
  tensionNewtons :: real
  tensionLbs :: real

definition calculateTension :: "real \<Rightarrow> real \<Rightarrow> real \<Rightarrow> tension" where
  "calculateTension frequencyHz stringLengthM linearDensityKgM =
     (let tN = linearDensityKgM * (2 * stringLengthM * frequencyHz)\<^sup>2;
          tL = tN * 0.224809
      in \<lparr>tensionNewtons = round2 tN, tensionLbs = round2 tL\<rparr>)"

text \<open>
  \<open>parseStringPattern\<close> matches \<open>/^(\d+)\s*x\s*(\d+)$/\<close>. A string is a list of bytes here, and
  of the characters \<open>\s\<close> matches only those of ASCII are modelled.
\<close>

definition isDigit :: "char \<Rightarrow> bool" where
  "isDigit c \<longleftrightarrow> c \<in> set ''0123456789''"

definition isSpace :: "char \<Rightarrow> bool" where
  "isSpace c \<longleftrightarrow> c \<in> {CHR '' '', CHR 0x09, CHR 0x0A, CHR 0x0B, CHR 0x0C, CHR 0x0D}"

text \<open>\<open>parseInt\<close> on a string of decimal digits.\<close>

definition parseInt :: "string \<Rightarrow> nat" where
  "parseInt ds = foldl (\<lambda>n c. 10 * n + (of_char c - 48)) 0 ds"

record pattern =
  mains :: nat
  crosses :: nat

definition parseStringPattern :: "string \<Rightarrow> pattern" where
  "parseStringPattern p =
     (let d1 = takeWhile isDigit p;
          r1 = dropWhile isSpace (dropWhile isDigit p)
      in case r1 of
           c # r2 \<Rightarrow>
             (let d2 = dropWhile isSpace r2
              in if d1 \<noteq> [] \<and> c = CHR ''x'' \<and> d2 \<noteq> [] \<and> list_all isDigit d2
                 then \<lparr>mains = parseInt d1, crosses = parseInt d2\<rparr>
                 else \<lparr>mains = 16, crosses = 19\<rparr>)
         | [] \<Rightarrow> \<lparr>mains = 16, crosses = 19\<rparr>)"

subsection \<open>The string table (lib/stringDatabase.ts)\<close>

datatype Material = Polyester | Nylon | NaturalGut | Multifilament | Kevlar

record GaugeEntry =
  mm :: real
  linearDensityGM :: real

record StringModel =
  brand :: string
  name :: string
  material :: Material
  gauges :: "GaugeEntry list"

definition STRING_DATABASE :: "StringModel list" where
  "STRING_DATABASE =
     [\<lparr>brand = ''Luxilon'', name = ''ALU Power'', material = Polyester,
       gauges = [\<lparr>mm = 1.25, linearDensityGM = 1.53\<rparr>, \<lparr>mm = 1.30, linearDensityGM = 1.66\<rparr>]\<rparr>,
      \<lparr>brand = ''Luxilon'', name = ''ALU Power Rough'', material = Polyester,
       gauges = [\<lparr>mm = 1.25, linearDensityGM = 1.54\<rparr>]\<rparr>,
      \<lparr>brand = ''Luxilon'', name = ''4G'', material = Polyester,
       gauges = [\<lparr>mm = 1.25, linearDensityGM = 1.51\<rparr>, \<lparr>mm = 1.30, linearDensityGM = 1.65\<rparr>]\<rparr>,
      \<lparr>brand = ''Luxilon'', name = ''4G Rough'', material = Polyester,
       gauges = [\<lparr>mm = 1.25, linearDensityGM = 1.52\<rparr>]\<rparr>,
      \<lparr>brand = ''Luxilon'', name = ''Element'', material = Polyester,
       gauges = [\<lparr>mm = 1.25, linearDensityGM = 1.46\<rparr>, \<lparr>mm = 1.30, linearDensityGM = 1.58\<rparr>]\<rparr>,
      \<lparr>brand = ''Babolat'', name = ''RPM Blast'', material = Polyester,
       gauges = [\<lparr>mm = 1.20, linearDensityGM = 1.36\<rparr>, \<lparr>mm = 1.25, linearDensityGM = 1.48\<rparr>, \<lparr>mm = 1.30, linearDensityGM = 1.63\<rparr>, \<lparr>mm = 1.35, linearDensityGM = 1.74\<rparr>]\<rparr>,
      \<lparr>brand = ''Babolat'', name = ''RPM Blast Rough'', material = Polyester,
       gauges = [\<lparr>mm = 1.25, linearDensityGM = 1.50\<rparr>, \<lparr>mm = 1.30, linearDensityGM = 1.64\<rparr>]\<rparr>,
      \<lparr>brand = ''Babolat'', name = ''RPM Hurricane'', material = Polyester,
       gauges = [\<lparr>mm = 1.25, linearDensityGM = 1.52\<rparr>, \<lparr>mm = 1.30, linearDensityGM = 1.67\<rparr>]\<rparr>,
      \<lparr>brand = ''Solinco'', name = ''Hyper-G'', material = Polyester,
       gauges = [\<lparr>mm = 1.15, linearDensityGM = 1.22\<rparr>, \<lparr>mm = 1.20, linearDensityGM = 1.30\<rparr>, \<lparr>mm = 1.25, linearDensityGM = 1.52\<rparr>, \<lparr>mm = 1.30, linearDensityGM = 1.61\<rparr>]\<rparr>,
      \<lparr>brand = ''Solinco'', name = ''Hyper-G Soft'', material = Polyester,
       gauges = [\<lparr>mm = 1.20, linearDensityGM = 1.28\<rparr>, \<lparr>mm = 1.25, linearDensityGM = 1.49\<rparr>]\<rparr>,
      \<lparr>brand = ''Solinco'', name = ''Tour Bite'', material = Polyester,
       gauges = [\<lparr>mm = 1.20, linearDensityGM = 1.33\<rparr>, \<lparr>mm = 1.25, linearDensityGM = 1.50\<rparr>, \<lparr>mm = 1.30, linearDensityGM = 1.63\<rparr>]\<rparr>,
      \<lparr>brand = ''Solinco'', name = ''Confidential'', material = Polyester,
       gauges = [\<lparr>mm = 1.20, linearDensityGM = 1.31\<rparr>, \<lparr>mm = 1.25, linearDensityGM = 1.48\<rparr>]\<rparr>,
      \<lparr>brand = ''Head'', name = ''Lynx'', material = Polyester,
       gauges = [\<lparr>mm = 1.25, linearDensityGM = 1.48\<rparr>, \<lparr>mm = 1.30, linearDensityGM = 1.62\<rparr>]\<rparr>,
      \<lparr>brand = ''Head'', name = ''Lynx Tour'', material = Polyester,
       gauges = [\<lparr>mm = 1.25, linearDensityGM = 1.49\<rparr>, \<lparr>mm = 1.30, linearDensityGM = 1.63\<rparr>]\<rparr>,
      \<lparr>brand = ''Head'', name = ''Hawk'', material = Polyester,
       gauges = [\<lparr>mm = 1.25, linearDensityGM = 1.50\<rparr>, \<lparr>mm = 1.30, linearDensityGM = 1.64\<rparr>]\<rparr>,
      \<lparr>brand = ''Yonex'', name = ''Poly Tour Pro'', material = Polyester,
       gauges = [\<lparr>mm = 1.20, linearDensityGM = 1.35\<rparr>, \<lparr>mm = 1.25, linearDensityGM = 1.50\<rparr>, \<lparr>mm = 1.30, linearDensityGM = 1.64\<rparr>]\<rparr>,
      \<lparr>brand = ''Yonex'', name = ''Poly Tour Strike'', material = Polyester,
       gauges = [\<lparr>mm = 1.25, linearDensityGM = 1.49\<rparr>, \<lparr>mm = 1.30, linearDensityGM = 1.63\<rparr>]\<rparr>,
      \<lparr>brand = ''Yonex'', name = ''Poly Tour Rev'', material = Polyester,
       gauges = [\<lparr>mm = 1.20, linearDensityGM = 1.34\<rparr>, \<lparr>mm = 1.25, linearDensityGM = 1.48\<rparr>]\<rparr>,
      \<lparr>brand = ''Tecnifibre'', name = ''Razor Code'', material = Polyester,
       gauges = [\<lparr>mm = 1.25, linearDensityGM = 1.47\<rparr>, \<lparr>mm = 1.30, linearDensityGM = 1.61\<rparr>]\<rparr>,
      \<lparr>brand = ''Tecnifibre'', name = ''Black Code'', material = Polyester,
       gauges = [\<lparr>mm = 1.24, linearDensityGM = 1.46\<rparr>, \<lparr>mm = 1.28, linearDensityGM = 1.56\<rparr>]\<rparr>,
      \<lparr>brand = ''Volkl'', name = ''Cyclone'', material = Polyester,
       gauges = [\<lparr>mm = 1.25, linearDensityGM = 1.48\<rparr>, \<lparr>mm = 1.30, linearDensityGM = 1.62\<rparr>]\<rparr>,
      \<lparr>brand = ''Wilson'', name = ''Revolve'', material = Polyester,
       gauges = [\<lparr>mm = 1.25, linearDensityGM = 1.48\<rparr>, \<lparr>mm = 1.30, linearDensityGM = 1.63\<rparr>]\<rparr>,
      \<lparr>brand = ''Wilson'', name = ''Luxilon Ace'', material = Polyester,
       gauges = [\<lparr>mm = 1.12, linearDensityGM = 1.20\<rparr>]\<rparr>,
      \<lparr>brand = ''Wilson'', name = ''NXT'', material = Multifilament,
       gauges = [\<lparr>mm = 1.24, linearDensityGM = 1.30\<rparr>, \<lparr>mm = 1.30, linearDensityGM = 1.36\<rparr>]\<rparr>,
      \<lparr>brand = ''Tecnifibre'', name = ''X-One Biphase'', material = Multifilament,
       gauges = [\<lparr>mm = 1.24, linearDensityGM = 1.30\<rparr>, \<lparr>mm = 1.30, linearDensityGM = 1.34\<rparr>]\<rparr>,
      \<lparr>brand = ''Tecnifibre'', name = ''NRG2'', material = Multifilament,
       gauges = [\<lparr>mm = 1.24, linearDensityGM = 1.28\<rparr>, \<lparr>mm = 1.32, linearDensityGM = 1.37\<rparr>]\<rparr>,
      \<lparr>brand = ''Head'', name = ''Velocity MLT'', material = Multifilament,
       gauges = [\<lparr>mm = 1.25, linearDensityGM = 1.27\<rparr>, \<lparr>mm = 1.30, linearDensityGM = 1.35\<rparr>]\<rparr>,
      \<lparr>brand = ''Babolat'', name = ''VS Touch'', material = NaturalGut,
       gauges = [\<lparr>mm = 1.25, linearDensityGM = 1.35\<rparr>, \<lparr>mm = 1.30, linearDensityGM = 1.42\<rparr>]\<rparr>,
      \<lparr>brand = ''Wilson'', name = ''Natural Gut'', material = NaturalGut,
       gauges = [\<lparr>mm = 1.25, linearDensityGM = 1.33\<rparr>, \<lparr>mm = 1.30, linearDensityGM = 1.40\<rparr>]\<rparr>,
      \<lparr>brand = ''Luxilon'', name = ''Natural Gut'', material = NaturalGut,
       gauges = [\<lparr>mm = 1.25, linearDensityGM = 1.34\<rparr>, \<lparr>mm = 1.30, linearDensityGM = 1.41\<rparr>]\<rparr>,
      \<lparr>brand = ''Prince'', name = ''Synthetic Gut'', material = Nylon,
       gauges = [\<lparr>mm = 1.25, linearDensityGM = 1.28\<rparr>, \<lparr>mm = 1.30, linearDensityGM = 1.37\<rparr>]\<rparr>,
      \<lparr>brand = ''Wilson'', name = ''Synthetic Gut Power'', material = Nylon,
       gauges = [\<lparr>mm = 1.25, linearDensityGM = 1.27\<rparr>, \<lparr>mm = 1.30, linearDensityGM = 1.36\<rparr>]\<rparr>,
      \<lparr>brand = ''Head'', name = ''Synthetic Gut PPS'', material = Nylon,
       gauges = [\<lparr>mm = 1.25, linearDensityGM = 1.29\<rparr>, \<lparr>mm = 1.30, linearDensityGM = 1.38\<rparr>]\<rparr>,
      \<lparr>brand = ''Toroline'', name = ''O-TORO'', material = Polyester,
       gauges = [\<lparr>mm = 1.23, linearDensityGM = 1.64\<rparr>]\<rparr>,
      \<lparr>brand = ''Toroline'', name = ''O-TORO Tour'', material = Polyester,
       gauges = [\<lparr>mm = 1.20, linearDensityGM = 1.56\<rparr>, \<lparr>mm = 1.23, linearDensityGM = 1.64\<rparr>]\<rparr>,
      \<lparr>brand = ''Toroline'', name = ''O-TORO Spin'', material = Polyester,
       gauges = [\<lparr>mm = 1.23, linearDensityGM = 1.64\<rparr>]\<rparr>,
      \<lparr>brand = ''Toroline'', name = ''O-TORO Snap'', material = Polyester,
       gauges = [\<lparr>mm = 1.23, linearDensityGM = 1.64\<rparr>]\<rparr>,
      \<lparr>brand = ''Toroline'', name = ''O-TORO Octa'', material = Polyester,
       gauges = [\<lparr>mm = 1.23, linearDensityGM = 1.64\<rparr>]\<rparr>,
      \<lparr>brand = ''Toroline'', name = ''Caviar'', material = Polyester,
       gauges = [\<lparr>mm = 1.16, linearDensityGM = 1.46\<rparr>, \<lparr>mm = 1.20, linearDensityGM = 1.56\<rparr>, \<lparr>mm = 1.24, linearDensityGM = 1.67\<rparr>]\<rparr>,
      \<lparr>brand = ''Toroline'', name = ''Ether'', material = Polyester,
       gauges = [\<lparr>mm = 1.20, linearDensityGM = 1.56\<rparr>]\<rparr>,
      \<lparr>brand = ''Toroline'', name = ''Wasabi'', material = Polyester,
       gauges = [\<lparr>mm = 1.23, linearDensityGM = 1.64\<rparr>]\<rparr>,
      \<lparr>brand = ''Toroline'', name = ''Zero'', material = Polyester,
       gauges = [\<lparr>mm = 1.23, linearDensityGM = 1.64\<rparr>, \<lparr>mm = 1.28, linearDensityGM = 1.77\<rparr>]\<rparr>]"

text \<open>
  The interpolation loop \<open>for (let i = 0; i < sorted.length - 1; i++)\<close> over the neighbours
  \<open>sorted[i]\<close> and \<open>sorted[i + 1]\<close>.
\<close>

fun interpolateGauges :: "GaugeEntry list \<Rightarrow> real \<Rightarrow> real option" where
  "interpolateGauges (a # b # rest) gaugeMm =
     (if gaugeMm \<ge> mm a \<and> gaugeMm \<le> mm b
      then let t = (gaugeMm - mm a) / (mm b - mm a);
               density = linearDensityGM a + t * (linearDensityGM b - linearDensityGM a)
           in Some (density / 1000)
      else interpolateGauges (b # rest) gaugeMm)"
| "interpolateGauges rest gaugeMm = None"

text \<open>
  \<open>lookupLinearDensity\<close>. \<open>Inr None\<close> is the result \<open>null\<close>. On an entry with no gauge the
  source reads \<open>sorted[0].mm\<close> of an empty array and throws a TypeError. The stable sort of
  the source by \<open>a.mm - b.mm\<close> is \<open>sort_key mm\<close>.
\<close>

datatype js_error = TypeError

definition lookupLinearDensity :: "string \<Rightarrow> string \<Rightarrow> real \<Rightarrow> js_error + real option" where
  "lookupLinearDensity b n gaugeMm =
     (case find (\<lambda>s. brand s = b \<and> name s = n) STRING_DATABASE of
        None \<Rightarrow> Inr None
      | Some entry \<Rightarrow>
          (case find (\<lambda>g. \<bar>mm g - gaugeMm\<bar> < 0.005) (gauges entry) of
             Some exact \<Rightarrow> Inr (Some (linearDensityGM exact / 1000))
           | None \<Rightarrow>
               (let sorted = sort_key mm (gauges entry)
                in if sorted = [] then Inl TypeError
                   else if gaugeMm < mm (hd sorted) then Inr (Some (linearDensityGM (hd sorted) / 1000))
                   else if gaugeMm > mm (last sorted)
                   then Inr (Some (linearDensityGM (last sorted) / 1000))
                   else Inr (interpolateGauges sorted gaugeMm))))"

subsection \<open>The tension of a setup (App.tsx, computeTension)\<close>

text \<open>
  The settings. The form keeps the numbers as text and \<open>computeTension\<close> reads them with
  \<open>parseFloat\<close>; the record carries what \<open>parseFloat\<close> returns for them, \<open>None\<close> being NaN.
  The field \<open>material\<close> of the settings is \<open>settingsMaterial\<close> here, \<open>material\<close> being the
  field of the entries of the string table.
\<close>

record TensionSettings =
  settingsMaterial :: string
  gaugeMm :: "real option"
  headSizeSqIn :: "real option"
  stringPattern :: string
  stringKey :: string
  stringLengthMm :: "real option"

text \<open>\<open>x || d\<close> on a number: \<open>d\<close> when \<open>x\<close> is NaN or 0.\<close>

definition orDefault :: "real option \<Rightarrow> real \<Rightarrow> real" where
  "orDefault x d = (case x of None \<Rightarrow> d | Some v \<Rightarrow> if v = 0 then d else v)"

text \<open>
  \<open>const [brand, name] = settings.stringKey.split('|')\<close>: the text before the first bar,
  and the text between the first and the second, \<open>undefined\<close> when there is no bar.
\<close>

definition splitKey :: "string \<Rightarrow> string \<times> string option" where
  "splitKey k =
     (let isBar = (\<lambda>c. c = CHR ''|'');
          b = takeWhile (\<lambda>c. \<not> isBar c) k;
          rest = dropWhile (\<lambda>c. \<not> isBar c) k
      in (b, case rest of [] \<Rightarrow> None | bar # r \<Rightarrow> Some (takeWhile (\<lambda>c. \<not> isBar c) r)))"

text \<open>
  The linear density \<open>computeTension\<close> starts from: the measured value of the table when
  the lookup has one, the solid cylinder otherwise. A name that is \<open>undefined\<close> equals no
  name of the table.
\<close>

definition settingsLinearDensity :: "TensionSettings \<Rightarrow> real \<Rightarrow> js_error + real" where
  "settingsLinearDensity settings g =
     (let cylinder =
            calculateLinearDensity g
              (orDefault (MATERIAL_DENSITIES (settingsMaterial settings)) 1380)
      in if stringKey settings \<noteq> []
         then (case splitKey (stringKey settings) of
                 (b, n) \<Rightarrow>
                   (case (case n of None \<Rightarrow> Inr None | Some n' \<Rightarrow> lookupLinearDensity b n' g) of
                      Inl e \<Rightarrow> Inl e
                    | Inr None \<Rightarrow> Inr cylinder
                    | Inr (Some dbDensity) \<Rightarrow> Inr dbDensity))
         else Inr cylinder)"

definition computeTension :: "TensionSettings \<Rightarrow> real \<Rightarrow> js_error + tension" where
  "computeTension settings frequencyHz =
     (let g = normalizeGaugeMm (orDefault (gaugeMm settings) 1.25)
      in case settingsLinearDensity settings g of
           Inl e \<Rightarrow> Inl e
         | Inr linearDensity0 \<Rightarrow>
             (let linearDensity =
                    linearDensity0 *
                      crossStringMassLoadingFactor (real (crosses (parseStringPattern (stringPattern settings))));
                  stringLength =
                    (case stringLengthMm settings of
                       Some measuredMm \<Rightarrow>
                         if measuredMm > 0 then measuredMm / 1000
                         else estimateStringLength (orDefault (headSizeSqIn settings) 100)
                     | None \<Rightarrow> estimateStringLength (orDefault (headSizeSqIn settings) 100))
              in Inr (calculateTension frequencyHz stringLength linearDensity)))"

subsection \<open>The transform (lib/audioAnalysis.ts, fft)\<close>

text \<open>
  The arrays \<open>re\<close> and \<open>im\<close> are lists updated in place. \<open>fft\<close> is private to its module
  and is only called on arrays of 32768 entries; for a length that is a power of two every
  index below stays inside the arrays. The counters are small non-negative integers, on
  which the 32-bit operators \<open>&\<close>, \<open>^\<close> and \<open>>>\<close> of the source are those of the naturals.
  The source's variable \<open>bit\<close> is \<open>bt\<close> here.
\<close>

text \<open>\<open>while (j & bit) { j ^= bit; bit >>= 1; }\<close>\<close>

function bitReverseCarry :: "nat \<Rightarrow> nat \<Rightarrow> nat \<times> nat" where
  "bitReverseCarry j bt =
     (if j AND bt \<noteq> 0 then bitReverseCarry (j XOR bt) (drop_bit 1 bt) else (j, bt))"
  by pat_completeness auto
termination
proof (relation "measure (\<lambda>(j, bt). bt)")
  show "wf (measure (\<lambda>(j :: nat, bt :: nat). bt))" by simp
next
  fix j bt :: nat
  assume "j AND bt \<noteq> 0"
  then have "bt \<noteq> 0" by (cases "bt = 0") simp_all
  then show "((j XOR bt, drop_bit 1 bt), (j, bt)) \<in> measure (\<lambda>(j, bt). bt)"
    by (simp add: drop_bit_eq_div)
qed

definition swap :: "real list \<Rightarrow> nat \<Rightarrow> nat \<Rightarrow> real list" where
  "swap xs i j = (let tmp = xs ! i in (xs[i := xs ! j])[j := tmp])"

text \<open>The bt-reversal permutation: \<open>for (let i = 1, j = 0; i < n; i++)\<close>.\<close>

function bitReversal :: "nat \<Rightarrow> nat \<Rightarrow> nat \<Rightarrow> real list \<times> real list \<Rightarrow> real list \<times> real list" where
  "bitReversal n i j (re, im) =
     (if i < n
      then (case bitReverseCarry j (drop_bit 1 n) of
              (j1, bt) \<Rightarrow>
                (let j2 = j1 XOR bt
                 in bitReversal n (i + 1) j2
                      (if i < j2 then (swap re i j2, swap im i j2) else (re, im))))
      else (re, im))"
  by pat_completeness auto
termination
  by (relation "measure (\<lambda>(n, i, j, arrays). n - i)") auto

text \<open>The innermost butterfly loop: \<open>for (let j = 0; j < halfLen; j++)\<close>.\<close>

function butterflyInner ::
  "nat \<Rightarrow> nat \<Rightarrow> nat \<Rightarrow> real \<Rightarrow> real \<Rightarrow> real \<times> real \<Rightarrow> real list \<times> real list
     \<Rightarrow> real list \<times> real list" where
  "butterflyInner halfLen i j wRe wIm (curRe, curIm) (re, im) =
     (if j < halfLen
      then let idx = i + j;
               idx2 = idx + halfLen;
               tRe = curRe * re ! idx2 - curIm * im ! idx2;
               tIm = curRe * im ! idx2 + curIm * re ! idx2;
               re1 = re[idx2 := re ! idx - tRe];
               im1 = im[idx2 := im ! idx - tIm];
               re2 = re1[idx := re1 ! idx + tRe];
               im2 = im1[idx := im1 ! idx + tIm];
               newCurRe = curRe * wRe - curIm * wIm;
               newCurIm = curRe * wIm + curIm * wRe
           in butterflyInner halfLen i (j + 1) wRe wIm (newCurRe, newCurIm) (re2, im2)
      else (re, im))"
  by pat_completeness auto
termination
  by (relation "measure (\<lambda>(halfLen, i, j, rest). halfLen - j)") auto

text \<open>
  \<open>for (let i = 0; i < n; i += len)\<close> and \<open>for (let len = 2; len <= n; len *= 2)\<close>. The source
  starts \<open>len\<close> at 2 and doubles it; the test \<open>0 < len\<close> is there for the recursion to be
  well-founded on every argument and is true in every call the program makes. \<open>len\<close> is
  even in every call, so \<open>len / 2\<close> is \<open>len div 2\<close>.
\<close>

function butterflyBlocks ::
  "nat \<Rightarrow> nat \<Rightarrow> nat \<Rightarrow> real \<Rightarrow> real \<Rightarrow> real list \<times> real list \<Rightarrow> real list \<times> real list" where
  "butterflyBlocks len n i wRe wIm (re, im) =
     (if i < n \<and> 0 < len
      then butterflyBlocks len n (i + len) wRe wIm
             (butterflyInner (len div 2) i 0 wRe wIm (1, 0) (re, im))
      else (re, im))"
  by pat_completeness auto
termination
  by (relation "measure (\<lambda>(len, n, i, rest). n - i)") auto

function butterflyPasses :: "nat \<Rightarrow> nat \<Rightarrow> real list \<times> real list \<Rightarrow> real list \<times> real list" where
  "butterflyPasses len n (re, im) =
     (if len \<le> n \<and> 0 < len
      then let angle = (- 2 * pi) / real len;
               wRe = cos angle;
               wIm = sin angle
           in butterflyPasses (len * 2) n (butterflyBlocks len n 0 wRe wIm (re, im))
      else (re, im))"
  by pat_completeness auto
termination
  by (relation "measure (\<lambda>(len, n, arrays). n + 1 - len)") auto

definition fft :: "real list \<times> real list \<Rightarrow> real list \<times> real list" where
  "fft arrays =
     (case arrays of
        (re, im) \<Rightarrow>
          (let n = length re
           in if n \<le> 1 then (re, im) else butterflyPasses 2 n (bitReversal n 1 0 (re, im))))"

subsection \<open>The spectral estimator (lib/audioAnalysis.ts, detectFundamentalFrequency)\<close>

text \<open>
  The peak search \<open>for (let i = minBin; i <= maxBin; i++)\<close>. A bin outside the arrays reads
  \<open>undefined\<close> in the source, its squared magnitude is NaN and the comparison fails: the bin
  is skipped.
\<close>

function peakLoop ::
  "real list \<Rightarrow> real list \<Rightarrow> int \<Rightarrow> int \<Rightarrow> real \<times> int \<Rightarrow> real \<times> int" where
  "peakLoop re im i maxBin (maxMag, maxIndex) =
     (if i \<le> maxBin
      then peakLoop re im (i + 1) maxBin
             (if 0 \<le> i \<and> nat i < length re \<and> nat i < length im
              then let mag = re ! nat i * re ! nat i + im ! nat i * im ! nat i
                   in if mag > maxMag then (mag, i) else (maxMag, maxIndex)
              else (maxMag, maxIndex))
      else (maxMag, maxIndex))"
  by pat_completeness auto
termination
  by (relation "measure (\<lambda>(re, im, i, maxBin, best). nat (maxBin + 1 - i))") auto

text \<open>The Hann-windowed, zero-padded input of the transform.\<close>

definition hannWindow :: "nat \<Rightarrow> nat \<Rightarrow> real" where
  "hannWindow windowSize i = 0.5 * (1 - cos ((2 * pi * real i) / (real windowSize - 1)))"

definition windowedInput :: "real list \<Rightarrow> real list \<times> real list" where
  "windowedInput samples =
     (let fftSize = 32768;
          windowSize = min (length samples) fftSize;
          startOffset = length samples - windowSize;
          re = map (\<lambda>i. samples ! (startOffset + i) * hannWindow windowSize i) [0..<windowSize]
                 @ replicate (fftSize - windowSize) 0;
          im = replicate fftSize 0
      in (re, im))"

text \<open>
  A number of the source is a real here. The one operation of the estimator whose result
  need not be one is a division: for a zero divisor the source gets Infinity or NaN, and
  every sum, product or quotient by 32768 computed from that is Infinity or NaN again.
\<close>

datatype jsNumber = Finite real | NonFinite

definition jsDivide :: "real \<Rightarrow> real \<Rightarrow> jsNumber" where
  "jsDivide a b = (if b = 0 then NonFinite else Finite (a / b))"

text \<open>
  The magnitudes beside the peak, with the source's tests at the two ends of the half
  spectrum, and the interpolated frequency.
\<close>

definition binMagnitude :: "real list \<Rightarrow> real list \<Rightarrow> int \<Rightarrow> real" where
  "binMagnitude re im k = sqrt (re ! nat k * re ! nat k + im ! nat k * im ! nat k)"

definition interpolatePeak :: "real list \<Rightarrow> real list \<Rightarrow> real \<Rightarrow> int \<Rightarrow> real \<Rightarrow> jsNumber" where
  "interpolatePeak re im maxMag maxIndex sampleRate =
     (let fftSize = 32768;
          prevMag = (if maxIndex > 0 then binMagnitude re im (maxIndex - 1) else 0);
          curMag = sqrt maxMag;
          nextMag = (if maxIndex < fftSize div 2 - 1 then binMagnitude re im (maxIndex + 1) else 0);
          denom = prevMag - 2 * curMag + nextMag;
          delta = (if denom \<noteq> 0 then jsDivide (0.5 * (prevMag - nextMag)) denom else Finite 0)
      in case delta of
           Finite d \<Rightarrow> Finite (((of_int maxIndex + d) * sampleRate) / fftSize)
         | NonFinite \<Rightarrow> NonFinite)"

text \<open>
  Two more divisions by zero of the source are written out as the results they lead to.
  With \<open>sampleRate = 0\<close> the source computes \<open>minBin = Infinity\<close>, the search loop does not run
  and the result is \<open>null\<close>. With a single sample the Hann window divides by
  \<open>windowSize - 1 = 0\<close>, the sample becomes NaN, the transform spreads it over every bin, no
  comparison of the peak search succeeds and the result is \<open>null\<close>.
\<close>

definition detectFundamentalFrequency :: "real list \<Rightarrow> real \<Rightarrow> jsNumber option" where
  "detectFundamentalFrequency samples sampleRate =
     (if sampleRate = 0 \<or> length samples = 1 then None
      else let fftSize = 32768;
               (re, im) = fft (windowedInput samples);
               minBin = \<lfloor>(200 * fftSize) / sampleRate\<rfloor>;
               maxBin = min \<lceil>(750 * fftSize) / sampleRate\<rceil> (fftSize div 2 - 1);
               (maxMag, maxIndex) = peakLoop re im minBin maxBin (0, - 1)
           in if maxIndex < 0 then None
              else Some (interpolatePeak re im maxMag maxIndex sampleRate))"

text \<open>
  The estimator as \<open>tick\<close> calls it. Its result is never Infinity or NaN (lemma
  \<open>detectFundamentalFrequency_finite\<close> below), so the last case is never taken.
\<close>

definition estimate :: "real list \<Rightarrow> real \<Rightarrow> real option" where
  "estimate samples sampleRate =
     (case detectFundamentalFrequency samples sampleRate of
        Some (Finite f) \<Rightarrow> Some f
      | Some NonFinite \<Rightarrow> None
      | None \<Rightarrow> None)"

subsection \<open>The signal window selector (hooks/useAudioAnalyzer.ts, tick)\<close>

text \<open>
  The root mean square of the block the scan looks at for the offset \<open>off\<close>: the inner loop
  \<open>for (let i = off; i < off + checkLen; i++)\<close> with \<open>checkLen = Math.min(4096, len - off)\<close>.
  On an empty block the source gets NaN, which never replaces the best value; here the
  value is 0, which does not either.
\<close>

definition chunkRms :: "real list \<Rightarrow> int \<Rightarrow> real" where
  "chunkRms buf off =
     (let checkLen = min 4096 (int (length buf) - off);
          sumSq = sum_list (map (\<lambda>x. x * x) (take (nat checkLen) (drop (nat off) buf)))
      in sqrt (sumSq / of_int checkLen))"

text \<open>\<open>for (let off = Math.max(0, len - analysisSize); off >= 0; off -= 4096)\<close>\<close>

function scanWindows :: "real list \<Rightarrow> int \<Rightarrow> real \<times> int \<Rightarrow> real \<times> int" where
  "scanWindows buf off (bestRms, bestOffset) =
     (if off \<ge> 0
      then let rms = chunkRms buf off
           in scanWindows buf (off - 4096)
                (if rms > bestRms then (rms, off) else (bestRms, bestOffset))
      else (bestRms, bestOffset))"
  by pat_completeness auto
termination
  by (relation "measure (\<lambda>(buf, off, best). nat (off + 4096))") auto

definition selectWindow :: "real list \<Rightarrow> real \<times> int" where
  "selectWindow buf =
     (let analysisSize = 16384;
          len = int (length buf);
          start = max 0 (len - analysisSize)
      in scanWindows buf start (0, start))"

text \<open>
  The estimate of one tick: the window is cut out at the selected offset and handed to the
  estimator when the selected block is loud enough. \<open>detect\<close> stands for the imported
  \<open>detectFundamentalFrequency\<close>, which is \<open>estimate\<close>.
\<close>

definition tickFrequency ::
  "(real list \<Rightarrow> real \<Rightarrow> real option) \<Rightarrow> real list \<Rightarrow> real \<Rightarrow> real option" where
  "tickFrequency detect timeDomainBuf sampleRate =
     (case selectWindow timeDomainBuf of
        (bestRms, bestOffset) \<Rightarrow>
          (let analysisSize = 16384;
               len = int (length timeDomainBuf);
               windowStart = max 0 (min bestOffset (len - analysisSize));
               analysisBuf = take (nat analysisSize) (drop (nat windowStart) timeDomainBuf)
           in if bestRms \<ge> 0.004 then detect analysisBuf sampleRate else None))"

subsection \<open>The consensus state machine (hooks/useAudioAnalyzer.ts)\<close>

datatype status = Idle | Requesting | Listening | Locked

record AnalyzerState =
  status :: status
  frequency :: "real option"
  lockReadings :: "real list"
  error :: "string option"

text \<open>
  The hook: the React state and the refs. The audio context is known by its sample rate,
  the stream and the analyser by their presence. \<open>rafPending\<close> is the animation frame
  request: \<open>Some sr\<close> when a call of \<open>tick\<close> is scheduled, \<open>sr\<close> being the sample rate of the
  context its closure holds. Vibration of the device is not modelled.
\<close>

record hook =
  state :: AnalyzerState
  audioContextRef :: "real option"
  streamRef :: bool
  analyserRef :: bool
  rafPending :: "real option"
  lockReadingsRef :: "real list"
  lockedRef :: bool
  lastDetectionRef :: real
  validateRef :: "(real \<Rightarrow> bool) option"

definition initialHook :: hook where
  "initialHook =
     \<lparr>state = \<lparr>status = Idle, frequency = None, lockReadings = [], error = None\<rparr>,
      audioContextRef = None, streamRef = False, analyserRef = False, rafPending = None,
      lockReadingsRef = [], lockedRef = False, lastDetectionRef = 0, validateRef = None\<rparr>"

definition stopLoop :: "hook \<Rightarrow> hook" where
  "stopLoop h = h\<lparr>rafPending := None\<rparr>"

definition startLoop :: "real \<Rightarrow> hook \<Rightarrow> hook" where
  "startLoop sampleRate h = (stopLoop h)\<lparr>rafPending := Some sampleRate\<rparr>"

text \<open>
  The test of consistency. The source divides by the reading \<open>r\<close>; for \<open>r = 0\<close> the quotient
  is Infinity or NaN there and the comparison fails.
\<close>

definition withinThreshold :: "real \<Rightarrow> real \<Rightarrow> bool" where
  "withinThreshold freq r \<longleftrightarrow> r \<noteq> 0 \<and> \<bar>r - freq\<bar> / r < 0.03"

text \<open>
  One call of \<open>tick\<close>, scheduled by an animation frame: \<open>now\<close> is \<open>performance.now()\<close>,
  \<open>timeDomainBuf\<close> what the analyser delivers, \<open>sampleRate\<close> that of the context in the
  closure. \<open>if (freq)\<close> fails for \<open>null\<close> and for 0.
\<close>

definition tick ::
  "(real list \<Rightarrow> real \<Rightarrow> real option) \<Rightarrow> real \<Rightarrow> real list \<Rightarrow> real \<Rightarrow> hook \<Rightarrow> hook" where
  "tick detect now timeDomainBuf sampleRate h =
     (if lockedRef h then h\<lparr>rafPending := None\<rparr>
      else if now - lastDetectionRef h \<ge> 350
      then let h1 = h\<lparr>lastDetectionRef := now\<rparr>;
               freq = tickFrequency detect timeDomainBuf sampleRate
           in (case freq of
                 None \<Rightarrow> h1\<lparr>rafPending := Some sampleRate\<rparr>
               | Some f \<Rightarrow>
                   if f = 0 then h1\<lparr>rafPending := Some sampleRate\<rparr>
                   else if (case validateRef h1 of None \<Rightarrow> False | Some validate \<Rightarrow> \<not> validate f)
                   then h1\<lparr>state := (state h1)\<lparr>frequency := Some (round1 f)\<rparr>,
                          rafPending := Some sampleRate\<rparr>
                   else
                     let readings = lockReadingsRef h1;
                         isConsistent =
                           (length readings = 0 \<or> list_all (withinThreshold f) readings);
                         readings = (if isConsistent then readings @ [f] else [f])
                     in if length readings \<ge> 5
                        then let avgFreq = foldl (+) 0 readings / real (length readings)
                             in h1\<lparr>lockReadingsRef := readings, lockedRef := True,
                                   state := \<lparr>status = Locked, frequency = Some (round1 avgFreq),
                                              lockReadings = readings, error = None\<rparr>,
                                   rafPending := None\<rparr>
                        else h1\<lparr>lockReadingsRef := readings,
                                state := (state h1)\<lparr>frequency := Some (round1 f),
                                                      lockReadings := readings\<rparr>,
                                rafPending := Some sampleRate\<rparr>)
      else h\<lparr>rafPending := Some sampleRate\<rparr>)"

definition stop :: "hook \<Rightarrow> hook" where
  "stop h =
     (stopLoop h)\<lparr>streamRef := False, audioContextRef := None, analyserRef := False,
       lockReadingsRef := [], lockedRef := False, lastDetectionRef := 0, validateRef := None,
       state := \<lparr>status = Idle, frequency = None, lockReadings = [], error = None\<rparr>\<rparr>"

text \<open>
  \<open>start\<close> is asynchronous. Its first part runs to the \<open>await\<close>: \<open>hasGetUserMedia\<close> says
  whether the browser offers the microphone.
\<close>

definition startRequest :: "(real \<Rightarrow> bool) option \<Rightarrow> bool \<Rightarrow> hook \<Rightarrow> hook" where
  "startRequest validate hasGetUserMedia h =
     (let h1 = stop h;
          h2 = (case validate of None \<Rightarrow> h1 | Some v \<Rightarrow> h1\<lparr>validateRef := Some v\<rparr>)
      in if \<not> hasGetUserMedia
         then h2\<lparr>state := (state h2)\<lparr>status := Idle,
                error := Some ''Microphone requires HTTPS. Open this page with https:// on your phone.''\<rparr>\<rparr>
         else h2\<lparr>state := (state h2)\<lparr>status := Requesting, error := None\<rparr>\<rparr>)"

text \<open>Its second part, when the microphone is granted and the audio graph is built.\<close>

definition startGranted :: "real \<Rightarrow> hook \<Rightarrow> hook" where
  "startGranted sampleRate h =
     startLoop sampleRate
       (h\<lparr>streamRef := True, audioContextRef := Some sampleRate, analyserRef := True,
          lockedRef := False, lockReadingsRef := [], lastDetectionRef := 0,
          state := \<lparr>status = Listening, frequency = None, lockReadings = [], error = None\<rparr>\<rparr>)"

text \<open>
  Its \<open>catch\<close> branch. An exception may come from \<open>getUserMedia\<close> or from the construction
  of the audio graph; \<open>stage\<close> counts the refs assigned before it: the stream, the context,
  the analyser.
\<close>

definition startFailed :: "nat \<Rightarrow> real \<Rightarrow> string \<Rightarrow> hook \<Rightarrow> hook" where
  "startFailed stage sampleRate message h =
     (let h1 = (if 1 \<le> stage then h\<lparr>streamRef := True\<rparr> else h);
          h2 = (if 2 \<le> stage then h1\<lparr>audioContextRef := Some sampleRate\<rparr> else h1);
          h3 = (if 3 \<le> stage then h2\<lparr>analyserRef := True\<rparr> else h2)
      in h3\<lparr>state := (state h3)\<lparr>status := Idle, error := Some message\<rparr>\<rparr>)"

definition reset :: "hook \<Rightarrow> hook" where
  "reset h =
     (let h1 = h\<lparr>lockReadingsRef := [], lastDetectionRef := 0, lockedRef := False,
                 state := \<lparr>status = Listening, frequency = None, lockReadings = [], error = None\<rparr>\<rparr>
      in case audioContextRef h1 of
           Some sampleRate \<Rightarrow> if analyserRef h1 then startLoop sampleRate h1 else h1
         | None \<Rightarrow> h1)"

text \<open>
  The states the hook reaches. A tick runs only when one is scheduled. The two later parts
  of \<open>start\<close> are allowed at any moment, which gives no fewer states than the program has.
\<close>

inductive reachable :: "(real list \<Rightarrow> real \<Rightarrow> real option) \<Rightarrow> hook \<Rightarrow> bool"
  for detect :: "real list \<Rightarrow> real \<Rightarrow> real option" where
  reach_initial: "reachable detect initialHook"
| reach_tick: "reachable detect h \<Longrightarrow> rafPending h = Some sampleRate \<Longrightarrow>
     reachable detect (tick detect now timeDomainBuf sampleRate h)"
| reach_stop: "reachable detect h \<Longrightarrow> reachable detect (stop h)"
| reach_startRequest: "reachable detect h \<Longrightarrow>
     reachable detect (startRequest validate hasGetUserMedia h)"
| reach_startGranted: "reachable detect h \<Longrightarrow> reachable detect (startGranted sampleRate h)"
| reach_startFailed: "reachable detect h \<Longrightarrow>
     reachable detect (startFailed stage sampleRate message h)"
| reach_reset: "reachable detect h \<Longrightarrow> reachable detect (reset h)"

subsection \<open>Notions used to state the properties\<close>

text \<open>
  The offsets the scan visits from \<open>off\<close> on: \<open>off\<close>, \<open>off - 4096\<close>, and so on while they are
  not negative.
\<close>

function candidateOffsets :: "int \<Rightarrow> int list" where
  "candidateOffsets off = (if off \<ge> 0 then off # candidateOffsets (off - 4096) else [])"
  by pat_completeness auto
termination
  by (relation "measure (\<lambda>off. nat (off + 4096))") auto

text \<open>
  The root mean square of the whole analysis window of 16384 samples that starts at \<open>off\<close>,
  as the specification describes the candidate block.
\<close>

definition windowRms :: "real list \<Rightarrow> int \<Rightarrow> real" where
  "windowRms buf off =
     sqrt (sum_list (map (\<lambda>x. x * x) (take 16384 (drop (nat off) buf))) / 16384)"

text \<open>
  A buffer of 32768 samples: a loud first block, silence, and a loud tail that no scanned
  block covers.
\<close>

definition loudTailBuf :: "real list" where
  "loudTailBuf = replicate 4096 1 @ replicate 16384 0 @ replicate 12288 1"

text \<open>
  A buffer of 32768 samples, silent but for one sample of 0.32 in the block of 4096 samples
  at the offset 16384.
\<close>

definition clickBuf :: "real list" where
  "clickBuf = replicate 16384 0 @ 0 # 0.32 # replicate 16382 0"


text \<open>The example of the specification: Polyester, 1.25 mm, 100 sq in, 16x19, no string chosen.\<close>

definition exampleSettings :: TensionSettings where
  "exampleSettings =
     \<lparr>settingsMaterial = ''Polyester'', gaugeMm = Some 1.25, headSizeSqIn = Some 100,
      stringPattern = ''16x19'', stringKey = [], stringLengthMm = None\<rparr>"

text \<open>
  An entry of the table whose gauges are listed in rising order, each at least 0.01 mm
  above the one before.
\<close>

definition spacedGauges :: "GaugeEntry list \<Rightarrow> bool" where
  "spacedGauges gs \<longleftrightarrow> gs \<noteq> [] \<and> sorted_wrt (\<lambda>a b. mm a + 0.01 \<le> mm b) gs"

text \<open>The straight line between two tabulated gauges, in kg/m.\<close>

definition interpolated :: "GaugeEntry \<Rightarrow> GaugeEntry \<Rightarrow> real \<Rightarrow> real" where
  "interpolated a b q =
     (linearDensityGM a + (q - mm a) / (mm b - mm a) * (linearDensityGM b - linearDensityGM a)) / 1000"

text \<open>The part of \<open>lookupLinearDensity\<close> that works on the gauges of the entry found.\<close>

definition lookupEntry :: "GaugeEntry list \<Rightarrow> real \<Rightarrow> js_error + real option" where
  "lookupEntry gs q =
     (case find (\<lambda>g. \<bar>mm g - q\<bar> < 0.005) gs of
        Some exact \<Rightarrow> Inr (Some (linearDensityGM exact / 1000))
      | None \<Rightarrow>
          (let sorted = sort_key mm gs
           in if sorted = [] then Inl TypeError
              else if q < mm (hd sorted) then Inr (Some (linearDensityGM (hd sorted) / 1000))
              else if q > mm (last sorted) then Inr (Some (linearDensityGM (last sorted) / 1000))
              else Inr (interpolateGauges sorted q)))"

text \<open>
  A run of ticks 350 ms apart on a loud buffer, the detector returning the given estimates
  one after the other.
\<close>

fun feed :: "real list \<Rightarrow> real \<Rightarrow> hook \<Rightarrow> hook" where
  "feed [] now h = h"
| "feed (f # fs) now h =
     feed fs (now + 350) (tick (\<lambda>samples sampleRate. Some f) now (replicate 32768 1) 48000 h)"

text \<open>The invariant of the consensus state machine.\<close>

definition hookInv :: "hook \<Rightarrow> bool" where
  "hookInv h \<longleftrightarrow> length (lockReadingsRef h) \<le> 5 \<and>
     (\<not> lockedRef h \<longrightarrow> length (lockReadingsRef h) < 5) \<and>
     length (lockReadings (state h)) \<le> 5 \<and> 0 \<notin> set (lockReadingsRef h)"

text \<open>
  Notions for the transform of a single click. \<open>revBits k i\<close> is the number whose \<open>k\<close> binary
  digits are those of \<open>i\<close> in reverse order. \<open>impulse p c\<close> is the array of 32768 entries that
  holds \<open>c\<close> at the index \<open>p\<close> and 0 elsewhere, and \<open>blk m c\<close> the array that holds \<open>c\<close> at the
  \<open>m\<close> indices from 16384 on. \<open>copyUp xs i m j\<close> is \<open>xs\<close> after its entries from \<open>i + j\<close> to
  \<open>i + m - 1\<close> have been copied \<open>m\<close> places up.
\<close>

fun revBits :: "nat \<Rightarrow> nat \<Rightarrow> nat" where
  "revBits 0 i = 0"
| "revBits (Suc k) i = 2 ^ k * (i mod 2) + revBits k (i div 2)"

definition impulse :: "nat \<Rightarrow> real \<Rightarrow> real list" where
  "impulse p c = (replicate 32768 0)[p := c]"

definition blk :: "nat \<Rightarrow> real \<Rightarrow> real list" where
  "blk m c = map (\<lambda>k. if 16384 \<le> k \<and> k < 16384 + m then c else 0) [0..<32768]"

definition copyUp :: "real list \<Rightarrow> nat \<Rightarrow> nat \<Rightarrow> nat \<Rightarrow> real list" where
  "copyUp xs i m j =
     map (\<lambda>k. if i + m + j \<le> k \<and> k < i + 2 * m then xs ! (k - m) else xs ! k) [0..<length xs]"

text \<open>
  A spectrum of 32768 bins that all have the squared magnitude \<open>c * c\<close>, and the invariant of
  the last butterfly pass on \<open>blk 16384 c\<close>: the pairs of bins \<open>k\<close> and \<open>k + 16384\<close> below \<open>j\<close>
  are done, the others are untouched.
\<close>

definition flatSpectrum :: "real \<Rightarrow> real list \<times> real list \<Rightarrow> bool" where
  "flatSpectrum c arrays =
     (case arrays of
        (re, im) \<Rightarrow>
          length re = 32768 \<and> length im = 32768 \<and>
          (\<forall>k<32768. re ! k * re ! k + im ! k * im ! k = c * c))"

definition finalInv :: "nat \<Rightarrow> real \<Rightarrow> real list \<Rightarrow> real list \<Rightarrow> bool" where
  "finalInv j c re im =
     (length re = 32768 \<and> length im = 32768 \<and>
      (\<forall>k<32768.
         if k < j \<or> (16384 \<le> k \<and> k < 16384 + j)
         then re ! k * re ! k + im ! k * im ! k = c * c
         else im ! k = 0 \<and> re ! k = (if k < 16384 then 0 else c)))"

section \<open>Properties\<close>

subsection \<open>Gauge normalisation\<close>

lemma GAUGE_TO_MM_simps:
  "GAUGE_TO_MM 15 = Some 1.45" "GAUGE_TO_MM 16 = Some 1.30" "GAUGE_TO_MM 17 = Some 1.20"
  "GAUGE_TO_MM 18 = Some 1.10" "GAUGE_TO_MM 19 = Some 1.00" "GAUGE_TO_MM 20 = None"
  by (simp_all add: GAUGE_TO_MM_def)

lemma GAUGE_TO_MM_outside: "k < 15 \<or> 19 < k \<Longrightarrow> GAUGE_TO_MM k = None"
  by (auto simp: GAUGE_TO_MM_def)

lemma GAUGE_TO_MM_inside: "15 \<le> k \<Longrightarrow> k \<le> 19 \<Longrightarrow> GAUGE_TO_MM k \<noteq> None"
proof -
  assume "15 \<le> k" "k \<le> 19"
  then have "k = 15 \<or> k = 16 \<or> k = 17 \<or> k = 18 \<or> k = 19" by arith
  then show ?thesis by (elim disjE) (simp_all add: GAUGE_TO_MM_simps)
qed

text \<open>
  C10. \<open>normalizeGaugeMm\<close> returns a value below 3 unchanged; for \<open>15 \<le> v < 19\<close> it returns
  the tabulated diameter of \<open>floor v\<close> moved toward the diameter of the next gauge by the
  fractional part of \<open>v\<close>; on \<open>[19, 20)\<close> it returns 1.00; for every other value
  (\<open>3 \<le> v < 15\<close> or \<open>v \<ge> 20\<close>) it returns the fallback 1.25.
\<close>

theorem normalizeGaugeMm_cases:
  "(v < 3 \<longrightarrow> normalizeGaugeMm v = v) \<and>
   (15 \<le> v \<and> v < 19 \<longrightarrow>
      (\<exists>mm nextMm. GAUGE_TO_MM \<lfloor>v\<rfloor> = Some mm \<and> GAUGE_TO_MM (\<lfloor>v\<rfloor> + 1) = Some nextMm \<and>
         normalizeGaugeMm v = mm + (nextMm - mm) * (v - of_int \<lfloor>v\<rfloor>))) \<and>
   (19 \<le> v \<and> v < 20 \<longrightarrow> normalizeGaugeMm v = 1.00) \<and>
   ((3 \<le> v \<and> v < 15) \<or> 20 \<le> v \<longrightarrow> normalizeGaugeMm v = 1.25)"
proof (intro conjI impI)
  assume "v < 3"
  then show "normalizeGaugeMm v = v" by (simp add: normalizeGaugeMm_def)
next
  assume h: "15 \<le> v \<and> v < 19"
  then have lo: "15 \<le> \<lfloor>v\<rfloor>" and hi: "\<lfloor>v\<rfloor> \<le> 18" by (simp_all add: le_floor_iff floor_le_iff)
  from lo hi obtain mm where mm: "GAUGE_TO_MM \<lfloor>v\<rfloor> = Some mm"
    using GAUGE_TO_MM_inside [of "\<lfloor>v\<rfloor>"] by auto
  from lo hi obtain nextMm where nx: "GAUGE_TO_MM (\<lfloor>v\<rfloor> + 1) = Some nextMm"
    using GAUGE_TO_MM_inside [of "\<lfloor>v\<rfloor> + 1"] by auto
  from h have "normalizeGaugeMm v = mm + (nextMm - mm) * (v - of_int \<lfloor>v\<rfloor>)"
    by (simp add: normalizeGaugeMm_def Let_def mm nx)
  with mm nx show "\<exists>mm nextMm. GAUGE_TO_MM \<lfloor>v\<rfloor> = Some mm \<and> GAUGE_TO_MM (\<lfloor>v\<rfloor> + 1) = Some nextMm \<and>
      normalizeGaugeMm v = mm + (nextMm - mm) * (v - of_int \<lfloor>v\<rfloor>)"
    by blast
next
  assume h: "19 \<le> v \<and> v < 20"
  then have "\<lfloor>v\<rfloor> = 19" by (simp add: floor_eq_iff)
  with h show "normalizeGaugeMm v = 1.00"
    by (simp add: normalizeGaugeMm_def GAUGE_TO_MM_simps)
next
  assume h: "(3 \<le> v \<and> v < 15) \<or> 20 \<le> v"
  then have "\<lfloor>v\<rfloor> < 15 \<or> 19 < \<lfloor>v\<rfloor>" by (auto simp: floor_less_iff less_floor_iff)
  then have "GAUGE_TO_MM \<lfloor>v\<rfloor> = None" by (rule GAUGE_TO_MM_outside)
  with h show "normalizeGaugeMm v = 1.25"
    by (auto simp: normalizeGaugeMm_def)
qed

theorem normalizeGaugeMm_cases_witness:
  "normalizeGaugeMm 1.25 = 1.25 \<and> normalizeGaugeMm 15.5 = 1.375 \<and>
   normalizeGaugeMm 19.5 = 1 \<and> normalizeGaugeMm 7 = 1.25 \<and> normalizeGaugeMm 20 = 1.25"
proof -
  have f: "\<lfloor>15.5::real\<rfloor> = 15" by (simp add: floor_eq_iff)
  have "normalizeGaugeMm 1.25 = 1.25"
    using normalizeGaugeMm_cases [of "1.25"] by simp
  moreover have "normalizeGaugeMm 15.5 = 1.375"
  proof -
    obtain mm nextMm where "GAUGE_TO_MM \<lfloor>15.5::real\<rfloor> = Some mm"
      and "GAUGE_TO_MM (\<lfloor>15.5::real\<rfloor> + 1) = Some nextMm"
      and r: "normalizeGaugeMm 15.5 = mm + (nextMm - mm) * (15.5 - of_int \<lfloor>15.5::real\<rfloor>)"
      using normalizeGaugeMm_cases [of "15.5"] by auto
    then have "mm = 1.45" "nextMm = 1.30" by (simp_all add: f GAUGE_TO_MM_simps)
    with r show ?thesis by (simp add: f)
  qed
  moreover have "normalizeGaugeMm 19.5 = 1"
    using normalizeGaugeMm_cases [of "19.5"] by simp
  moreover have "normalizeGaugeMm 7 = 1.25"
    using normalizeGaugeMm_cases [of 7] by simp
  moreover have "normalizeGaugeMm 20 = 1.25"
    using normalizeGaugeMm_cases [of 20] by simp
  ultimately show ?thesis by simp
qed

subsection \<open>The example of the string physics\<close>

text \<open>Bounds on \<open>pi\<close> from Machin's formula and the alternating series of the arc tangent.\<close>

lemma arctan_partial_sums:
  assumes "0 < x" and "x \<le> 1"
  shows "(\<Sum>i<2 * n. (- 1) ^ i * (1 / real (i * 2 + 1) * x ^ (i * 2 + 1))) \<le> arctan x"
    and "arctan x \<le> (\<Sum>i<2 * n + 1. (- 1) ^ i * (1 / real (i * 2 + 1) * x ^ (i * 2 + 1)))"
proof -
  have ax: "\<bar>x\<bar> \<le> 1" using assms by simp
  have pos: "0 < 1 / real (0 * 2 + 1) * x ^ (0 * 2 + 1)" using assms by simp
  from summable_Leibniz(2) [OF zeroseq_arctan_series [OF ax] monoseq_arctan_series [OF ax]] pos
  have "(\<Sum>i. (- 1) ^ i * (1 / real (i * 2 + 1) * x ^ (i * 2 + 1)))
      \<in> {\<Sum>i<2 * n. (- 1) ^ i * (1 / real (i * 2 + 1) * x ^ (i * 2 + 1))..
         \<Sum>i<2 * n + 1. (- 1) ^ i * (1 / real (i * 2 + 1) * x ^ (i * 2 + 1))}"
    by blast
  then show "(\<Sum>i<2 * n. (- 1) ^ i * (1 / real (i * 2 + 1) * x ^ (i * 2 + 1))) \<le> arctan x"
    and "arctan x \<le> (\<Sum>i<2 * n + 1. (- 1) ^ i * (1 / real (i * 2 + 1) * x ^ (i * 2 + 1)))"
    by (simp_all add: arctan_series [OF ax])
qed

lemma pi_bounds: "3.1415 < pi" "pi < 3.1416"
proof -
  have l5: "(\<Sum>i<2 * 2. (- 1) ^ i * (1 / real (i * 2 + 1) * (1 / 5) ^ (i * 2 + 1))) \<le> arctan (1 / 5 :: real)"
    by (rule arctan_partial_sums) simp_all
  have u5: "arctan (1 / 5 :: real) \<le> (\<Sum>i<2 * 2 + 1. (- 1) ^ i * (1 / real (i * 2 + 1) * (1 / 5) ^ (i * 2 + 1)))"
    by (rule arctan_partial_sums) simp_all
  have l239: "(\<Sum>i<2 * 1. (- 1) ^ i * (1 / real (i * 2 + 1) * (1 / 239) ^ (i * 2 + 1))) \<le> arctan (1 / 239 :: real)"
    by (rule arctan_partial_sums) simp_all
  have u239: "arctan (1 / 239 :: real) \<le> (\<Sum>i<2 * 1 + 1. (- 1) ^ i * (1 / real (i * 2 + 1) * (1 / 239) ^ (i * 2 + 1)))"
    by (rule arctan_partial_sums) simp_all
  have p: "pi = 16 * arctan (1 / 5) - 4 * arctan (1 / 239)"
    using machin by simp
  have s4: "{..<2 * 2} = {0, 1, 2, 3 :: nat}" by auto
  have s5: "{..<2 * 2 + 1} = {0, 1, 2, 3, 4 :: nat}" by auto
  have s2: "{..<2 * 1} = {0, 1 :: nat}" by auto
  have s3: "{..<2 * 1 + 1} = {0, 1, 2 :: nat}" by auto
  have a: "0.197395 \<le> arctan (1 / 5 :: real)"
    using l5 unfolding s4 by (simp add: power_divide)
  have b: "arctan (1 / 5 :: real) \<le> 0.1973956"
    using u5 unfolding s5 by (simp add: power_divide)
  have c: "0.004184 \<le> arctan (1 / 239 :: real)"
    using l239 unfolding s2 by (simp add: power_divide)
  have d: "arctan (1 / 239 :: real) \<le> 0.004185"
    using u239 unfolding s3 by (simp add: power_divide)
  from a d show "3.1415 < pi" unfolding p by simp
  from b c show "pi < 3.1416" unfolding p by simp
qed

lemma parseStringPattern_16x19: "parseStringPattern ''16x19'' = \<lparr>mains = 16, crosses = 19\<rparr>"
  by (simp add: parseStringPattern_def isDigit_def isSpace_def parseInt_def Let_def)

lemma example_density: "calculateLinearDensity 1.25 1380 = pi * (5390625 / 10000000000)"
  by (simp add: calculateLinearDensity_def Let_def)

lemma example_length: "estimateStringLength 100 = 1.92 * sqrt (0.0935482 / pi)"
  by (simp add: estimateStringLength_def Let_def)

lemma example_length_bounds: "0.3313 < estimateStringLength 100" "estimateStringLength 100 < 0.3314"
proof -
  have y: "0.029777 < 0.0935482 / pi" "0.0935482 / pi < 0.029779"
    using pi_bounds by (simp_all add: field_simps)
  have "0.17256 < sqrt (0.0935482 / pi)"
    by (rule real_less_rsqrt) (use y in \<open>simp add: power2_eq_square\<close>)
  moreover have "sqrt (0.0935482 / pi) < 0.17257"
    by (rule real_less_lsqrt) (use y in \<open>simp_all add: power2_eq_square\<close>)
  ultimately show "0.3313 < estimateStringLength 100" "estimateStringLength 100 < 0.3314"
    unfolding example_length by simp_all
qed

lemma example_tension_newtons:
  "calculateLinearDensity 1.25 1380 * (2 * estimateStringLength 100 * 420)\<^sup>2
     = 128096018001 / 976562500"
proof -
  define y where "y = 0.0935482 / pi"
  have y0: "0 \<le> y" by (simp add: y_def)
  have "(2 * (1.92 * sqrt y) * 420)\<^sup>2 = (2 * 1.92 * 420)\<^sup>2 * (sqrt y * sqrt y)"
    by (simp add: power2_eq_square)
  also have "\<dots> = (2 * 1.92 * 420)\<^sup>2 * y"
    using y0 by simp
  finally have "(2 * estimateStringLength 100 * 420)\<^sup>2 = (2 * 1.92 * 420)\<^sup>2 * y"
    unfolding example_length y_def .
  then show ?thesis
    unfolding example_density y_def by (simp add: power2_eq_square)
qed

lemma example_tension:
  "computeTension exampleSettings 420 = Inr \<lparr>tensionNewtons = 131.17, tensionLbs = 29.49\<rparr>"
proof -
  have g: "normalizeGaugeMm (orDefault (gaugeMm exampleSettings) 1.25) = 1.25"
    by (simp add: exampleSettings_def orDefault_def normalizeGaugeMm_def)
  have d: "settingsLinearDensity exampleSettings 1.25 = Inr (calculateLinearDensity 1.25 1380)"
    by (simp add: settingsLinearDensity_def exampleSettings_def orDefault_def MATERIAL_DENSITIES_def Let_def)
  have c: "crossStringMassLoadingFactor (real (crosses (parseStringPattern (stringPattern exampleSettings)))) = 1"
    by (simp add: exampleSettings_def parseStringPattern_16x19 crossStringMassLoadingFactor_def)
  have f1: "\<lfloor>(13117 + 1036322433024 / 1953125000000 :: real)\<rfloor> = 13117" by (simp add: floor_eq_iff)
  have r1: "round2 (128096018001 / 976562500) = 131.17"
    by (simp add: round2_def js_round_def floor_eq_iff)
  have r2: "round2 (128096018001 / 976562500 * 0.224809) = 29.49"
    by (simp add: round2_def js_round_def floor_eq_iff)
  have "computeTension exampleSettings 420 = Inr (calculateTension 420 (estimateStringLength 100) (calculateLinearDensity 1.25 1380))"
    unfolding computeTension_def g d Let_def c
    by (simp add: exampleSettings_def orDefault_def)
  then show ?thesis
    by (simp only: calculateTension_def Let_def example_tension_newtons r1 r2)
qed

text \<open>
  C7 as the specification states it gives a vibrating length of about 0.2978 m for a head
  of 100 sq in. The head-size model of the source gives a length above 0.3313 m, more than
  33 mm away.
\<close>

theorem example_length_not_2978:
  "headSizeSqIn exampleSettings = Some 100 \<and> 0.0335 < estimateStringLength 100 - 0.2978"
  using example_length_bounds(1) by (simp add: exampleSettings_def)

text \<open>
  C7, amended. For Polyester (1380 kg/m3), gauge 1.25 mm, head size 100 sq in, pattern
  16x19 and 420.0 Hz: the linear density is within 0.000001 of 0.001694 kg/m, the vibrating
  length of the head-size model is within 0.0001 of 0.3313 m, and the tension is 131.17 N,
  that is 29.49 lbs, within 1 lb of 30.0.
\<close>

theorem example_scenario:
  "MATERIAL_DENSITIES ''Polyester'' = Some 1380 \<and>
   \<bar>calculateLinearDensity (normalizeGaugeMm 1.25) 1380 - 0.001694\<bar> < 0.000001 \<and>
   \<bar>estimateStringLength 100 - 0.3313\<bar> < 0.0001 \<and>
   (\<exists>t. computeTension exampleSettings 420 = Inr t \<and> tensionNewtons t = 131.17 \<and>
      tensionLbs t = 29.49 \<and> \<bar>tensionLbs t - 30\<bar> \<le> 1)"
proof -
  have n: "normalizeGaugeMm 1.25 = 1.25" by (simp add: normalizeGaugeMm_def)
  have "0.0016934 < calculateLinearDensity 1.25 1380"
    "calculateLinearDensity 1.25 1380 < 0.0016936"
    using pi_bounds unfolding example_density by simp_all
  then have d: "\<bar>calculateLinearDensity (normalizeGaugeMm 1.25) 1380 - 0.001694\<bar> < 0.000001"
    unfolding n abs_less_iff by simp
  have l: "\<bar>estimateStringLength 100 - 0.3313\<bar> < 0.0001"
    using example_length_bounds unfolding abs_less_iff by simp
  have m: "MATERIAL_DENSITIES ''Polyester'' = Some 1380" by (simp add: MATERIAL_DENSITIES_def)
  from d l m show ?thesis by (simp add: example_tension)
qed

subsection \<open>The density lookup\<close>

lemma spaced_exclusive:
  "a + 0.01 \<le> b \<Longrightarrow> \<bar>b - q\<bar> < 0.005 \<Longrightarrow> \<not> \<bar>a - q\<bar> < (0.005::real)"
  "a + 0.01 \<le> b \<Longrightarrow> \<bar>a - q\<bar> < 0.005 \<Longrightarrow> \<not> \<bar>b - q\<bar> < (0.005::real)"
  unfolding abs_less_iff by simp_all

lemma spaced_sorted_map: "sorted_wrt (\<lambda>a b. mm a + 0.01 \<le> mm b) gs \<Longrightarrow> sorted (map mm gs)"
  by (induction gs) (auto simp: field_simps intro: order_trans)

lemma STRING_DATABASE_spaced: "\<forall>e \<in> set STRING_DATABASE. spacedGauges (gauges e)"
  by (simp add: STRING_DATABASE_def spacedGauges_def)

lemma find_near:
  "sorted_wrt (\<lambda>a b. mm a + 0.01 \<le> mm b) gs \<Longrightarrow> g \<in> set gs \<Longrightarrow> \<bar>mm g - q\<bar> < 0.005 \<Longrightarrow>
     find (\<lambda>g. \<bar>mm g - q\<bar> < 0.005) gs = Some g"
proof (induction gs)
  case Nil
  then show ?case by simp
next
  case (Cons a gs)
  show ?case
  proof (cases "g = a")
    case True
    with Cons.prems show ?thesis by simp
  next
    case False
    with Cons.prems have g: "g \<in> set gs" and sp: "mm a + 0.01 \<le> mm g" by auto
    have "\<not> \<bar>mm a - q\<bar> < 0.005" by (rule spaced_exclusive(1) [OF sp Cons.prems(3)])
    with Cons g show ?thesis by simp
  qed
qed

lemma interpolateGauges_nth:
  "sorted_wrt (\<lambda>a b. mm a + 0.01 \<le> mm b) gs \<Longrightarrow> Suc i < length gs \<Longrightarrow>
     mm (gs ! i) < q \<Longrightarrow> q \<le> mm (gs ! Suc i) \<Longrightarrow>
     interpolateGauges gs q = Some (interpolated (gs ! i) (gs ! Suc i) q)"
proof (induction gs q arbitrary: i rule: interpolateGauges.induct)
  case (1 a b rest q)
  show ?case
  proof (cases i)
    case 0
    with "1.prems" show ?thesis by (simp add: interpolated_def Let_def)
  next
    case (Suc i')
    have "mm b \<le> mm ((b # rest) ! i')"
    proof (cases i')
      case 0
      then show ?thesis by simp
    next
      case (Suc k)
      with "1.prems"(1,2) \<open>i = Suc i'\<close> have "mm b + 0.01 \<le> mm (rest ! k)" by simp
      with Suc show ?thesis by simp
    qed
    with "1.prems"(3) Suc have nb: "\<not> q \<le> mm b" by simp
    have "interpolateGauges (b # rest) q = Some (interpolated ((b # rest) ! i') ((b # rest) ! Suc i') q)"
      using "1.IH" [of i'] nb "1.prems" Suc by simp
    with nb Suc show ?thesis by simp
  qed
qed simp_all

lemma spaced_hd_le:
  "sorted_wrt (\<lambda>a b. mm a + 0.01 \<le> mm b) gs \<Longrightarrow> g \<in> set gs \<Longrightarrow> g \<noteq> hd gs \<Longrightarrow>
     mm (hd gs) + 0.01 \<le> mm g"
  by (cases gs) auto

lemma spaced_last_ge:
  "sorted_wrt (\<lambda>a b. mm a + 0.01 \<le> mm b) gs \<Longrightarrow> g \<in> set gs \<Longrightarrow> g \<noteq> last gs \<Longrightarrow>
     mm g + 0.01 \<le> mm (last gs)"
proof -
  assume s: "sorted_wrt (\<lambda>a b. mm a + 0.01 \<le> mm b) gs" and g: "g \<in> set gs" "g \<noteq> last gs"
  then have ne: "gs \<noteq> []" by auto
  then have "gs = butlast gs @ [last gs]" by simp
  with s have "\<forall>x \<in> set (butlast gs). mm x + 0.01 \<le> mm (last gs)"
    by (metis sorted_wrt_append list.set_intros(1))
  moreover from g ne have "g \<in> set (butlast gs)"
    by (metis \<open>gs = butlast gs @ [last gs]\<close> Un_iff empty_iff empty_set set_ConsD set_append)
  ultimately show ?thesis by blast
qed

lemma spaced_nth_mono:
  "sorted_wrt (\<lambda>a b. mm a + 0.01 \<le> mm b) gs \<Longrightarrow> i \<le> j \<Longrightarrow> j < length gs \<Longrightarrow>
     mm (gs ! i) \<le> mm (gs ! j)"
proof -
  assume s: "sorted_wrt (\<lambda>a b. mm a + 0.01 \<le> mm b) gs" and ij: "i \<le> j" "j < length gs"
  show ?thesis
  proof (cases "i = j")
    case True
    then show ?thesis by simp
  next
    case False
    with ij have "i < j" by simp
    with s ij have "mm (gs ! i) + 0.01 \<le> mm (gs ! j)" by (simp add: sorted_wrt_iff_nth_less)
    then show ?thesis by simp
  qed
qed

lemma lookupLinearDensity_entry:
  "lookupLinearDensity b n q =
     (case find (\<lambda>s. brand s = b \<and> name s = n) STRING_DATABASE of
        None \<Rightarrow> Inr None | Some entry \<Rightarrow> lookupEntry (gauges entry) q)"
  by (simp add: lookupLinearDensity_def lookupEntry_def split: option.split)

lemma lookupEntry_near:
  assumes "spacedGauges gs" and "g \<in> set gs" and "\<bar>mm g - q\<bar> < 0.005"
  shows "lookupEntry gs q = Inr (Some (linearDensityGM g / 1000))"
  using assms find_near [of gs g q] by (simp add: lookupEntry_def spacedGauges_def)

lemma lookupEntry_far:
  assumes "spacedGauges gs" and "\<forall>g \<in> set gs. \<not> \<bar>mm g - q\<bar> < 0.005"
  shows "lookupEntry gs q =
     (if q < mm (hd gs) then Inr (Some (linearDensityGM (hd gs) / 1000))
      else if q > mm (last gs) then Inr (Some (linearDensityGM (last gs) / 1000))
      else Inr (interpolateGauges gs q))"
proof -
  have "find (\<lambda>g. \<bar>mm g - q\<bar> < 0.005) gs = None"
    using assms(2) by (simp add: find_None_iff)
  moreover have "sort_key mm gs = gs"
    using assms(1) by (simp add: spacedGauges_def sort_key_id_if_sorted spaced_sorted_map)
  ultimately show ?thesis
    using assms(1) by (simp add: lookupEntry_def spacedGauges_def)
qed

lemma lookupEntry_below:
  assumes "spacedGauges gs" and "q < mm (hd gs)"
  shows "lookupEntry gs q = Inr (Some (linearDensityGM (hd gs) / 1000))"
proof (cases "\<exists>g \<in> set gs. \<bar>mm g - q\<bar> < 0.005")
  case False
  with assms show ?thesis by (simp add: lookupEntry_far)
next
  case True
  then obtain g where g: "g \<in> set gs" "\<bar>mm g - q\<bar> < 0.005" by blast
  have "g = hd gs"
  proof (rule ccontr)
    assume "g \<noteq> hd gs"
    with assms(1) g(1) have "mm (hd gs) + 0.01 \<le> mm g"
      using spaced_hd_le [of gs g] by (simp add: spacedGauges_def)
    with assms(2) have "q + 0.01 < mm g" by simp
    with g(2) show False unfolding abs_less_iff by simp
  qed
  with lookupEntry_near [OF assms(1) g] show ?thesis by simp
qed

lemma lookupEntry_above:
  assumes "spacedGauges gs" and "q > mm (last gs)"
  shows "lookupEntry gs q = Inr (Some (linearDensityGM (last gs) / 1000))"
proof (cases "\<exists>g \<in> set gs. \<bar>mm g - q\<bar> < 0.005")
  case False
  have s: "sorted_wrt (\<lambda>a b. mm a + 0.01 \<le> mm b) gs" and ne: "gs \<noteq> []"
    using assms(1) by (simp_all add: spacedGauges_def)
  have "mm (gs ! 0) \<le> mm (gs ! (length gs - 1))"
    by (rule spaced_nth_mono [OF s]) (use ne in simp_all)
  then have "mm (hd gs) \<le> mm (last gs)"
    using ne by (simp add: hd_conv_nth last_conv_nth)
  with assms(2) have "\<not> q < mm (hd gs)" by simp
  with assms False show ?thesis by (simp add: lookupEntry_far)
next
  case True
  then obtain g where g: "g \<in> set gs" "\<bar>mm g - q\<bar> < 0.005" by blast
  have "g = last gs"
  proof (rule ccontr)
    assume "g \<noteq> last gs"
    with assms(1) g(1) have "mm g + 0.01 \<le> mm (last gs)"
      using spaced_last_ge [of gs g] by (simp add: spacedGauges_def)
    with assms(2) have "mm g + 0.01 < q" by simp
    with g(2) show False unfolding abs_less_iff by simp
  qed
  with lookupEntry_near [OF assms(1) g] show ?thesis by simp
qed

lemma lookupEntry_between:
  assumes "spacedGauges gs" and "\<forall>g \<in> set gs. \<not> \<bar>mm g - q\<bar> < 0.005"
    and "Suc i < length gs" and "mm (gs ! i) \<le> q" and "q \<le> mm (gs ! Suc i)"
  shows "lookupEntry gs q = Inr (Some (interpolated (gs ! i) (gs ! Suc i) q))"
proof -
  have s: "sorted_wrt (\<lambda>a b. mm a + 0.01 \<le> mm b) gs" and ne: "gs \<noteq> []"
    using assms(1) by (simp_all add: spacedGauges_def)
  have "gs ! i \<in> set gs" using assms(3) by simp
  with assms(2) have "\<not> \<bar>mm (gs ! i) - q\<bar> < 0.005" by blast
  with assms(4) have lt: "mm (gs ! i) < q" by (cases "mm (gs ! i) = q") simp_all
  have "mm (hd gs) \<le> mm (gs ! i)"
    using spaced_nth_mono [OF s, of 0 i] assms(3) ne by (simp add: hd_conv_nth)
  with lt have a: "\<not> q < mm (hd gs)" by simp
  have "mm (gs ! Suc i) \<le> mm (last gs)"
    using spaced_nth_mono [OF s, of "Suc i" "length gs - 1"] assms(3) ne
    by (simp add: last_conv_nth)
  with assms(5) have b: "\<not> q > mm (last gs)" by simp
  from a b show ?thesis
    by (simp add: lookupEntry_far [OF assms(1,2)] interpolateGauges_nth [OF s assms(3) lt assms(5)])
qed

lemma bracket_exists:
  "gs \<noteq> [] \<Longrightarrow> mm (hd gs) < q \<Longrightarrow> q \<le> mm (last gs) \<Longrightarrow>
     \<exists>i. Suc i < length gs \<and> mm (gs ! i) \<le> q \<and> q \<le> mm (gs ! Suc i)"
proof (induction gs rule: list_nonempty_induct)
  case (single x)
  then show ?case by simp
next
  case (cons x xs)
  show ?case
  proof (cases "q \<le> mm (hd xs)")
    case True
    with cons have "Suc 0 < length (x # xs) \<and> mm ((x # xs) ! 0) \<le> q \<and> q \<le> mm ((x # xs) ! Suc 0)"
      by (simp add: hd_conv_nth)
    then show ?thesis by blast
  next
    case False
    with cons obtain i where "Suc i < length xs \<and> mm (xs ! i) \<le> q \<and> q \<le> mm (xs ! Suc i)"
      by auto
    then have "Suc (Suc i) < length (x # xs) \<and> mm ((x # xs) ! Suc i) \<le> q \<and>
        q \<le> mm ((x # xs) ! Suc (Suc i))"
      by simp
    then show ?thesis by blast
  qed
qed

lemma lookupEntry_found:
  assumes "spacedGauges gs"
  shows "\<exists>d. lookupEntry gs q = Inr (Some d)"
proof -
  have s: "sorted_wrt (\<lambda>a b. mm a + 0.01 \<le> mm b) gs" and ne: "gs \<noteq> []"
    using assms(1) by (simp_all add: spacedGauges_def)
  consider (near) "\<exists>g \<in> set gs. \<bar>mm g - q\<bar> < 0.005" | (below) "q < mm (hd gs)"
    | (above) "q > mm (last gs)"
    | (mid) "\<forall>g \<in> set gs. \<not> \<bar>mm g - q\<bar> < 0.005" "mm (hd gs) \<le> q" "q \<le> mm (last gs)"
    by fastforce
  then show ?thesis
  proof cases
    case near
    then show ?thesis using lookupEntry_near [OF assms] by blast
  next
    case below
    then show ?thesis using lookupEntry_below [OF assms] by blast
  next
    case above
    then show ?thesis using lookupEntry_above [OF assms] by blast
  next
    case mid
    have "hd gs \<in> set gs" using ne by simp
    with mid(1) have "\<not> \<bar>mm (hd gs) - q\<bar> < 0.005" by blast
    with mid(2) have "mm (hd gs) < q" by (cases "mm (hd gs) = q") simp_all
    then have "\<exists>i. Suc i < length gs \<and> mm (gs ! i) \<le> q \<and> q \<le> mm (gs ! Suc i)"
      using ne mid(3) by (intro bracket_exists)
    then show ?thesis using lookupEntry_between [OF assms mid(1)] by blast
  qed
qed

lemma splitKey_bar:
  assumes "CHR ''|'' \<notin> set b" and "CHR ''|'' \<notin> set n"
  shows "splitKey (b @ CHR ''|'' # n) = (b, Some n)"
proof -
  have b: "\<forall>c \<in> set b. c \<noteq> CHR ''|''" and n: "\<forall>c \<in> set n. c \<noteq> CHR ''|''"
    using assms by auto
  have "takeWhile (\<lambda>c. c \<noteq> CHR ''|'') (b @ CHR ''|'' # n) = b"
    using b by (simp add: takeWhile_append2)
  moreover have "dropWhile (\<lambda>c. c \<noteq> CHR ''|'') (b @ CHR ''|'' # n) = CHR ''|'' # n"
    using b by (simp add: dropWhile_append2)
  moreover have "takeWhile (\<lambda>c. c \<noteq> CHR ''|'') n = n"
    using n by (simp add: takeWhile_eq_all_conv)
  ultimately show ?thesis by (simp add: splitKey_def Let_def)
qed

lemma find_ALU_Power:
  "find (\<lambda>s. brand s = ''Luxilon'' \<and> name s = ''ALU Power'') STRING_DATABASE =
     Some \<lparr>brand = ''Luxilon'', name = ''ALU Power'', material = Polyester,
       gauges = [\<lparr>mm = 1.25, linearDensityGM = 1.53\<rparr>, \<lparr>mm = 1.30, linearDensityGM = 1.66\<rparr>]\<rparr>"
  by (simp add: STRING_DATABASE_def)

lemma find_unknown:
  "find (\<lambda>s. brand s = ''Acme'' \<and> name s = ''Wire'') STRING_DATABASE = None"
  by (simp add: STRING_DATABASE_def)

text \<open>
  C8 as the specification states it interpolates whenever the gauge lies between two
  tabulated gauges and is not an exact match. For Luxilon ALU Power, tabulated at 1.25 and
  1.30 mm, the gauge 1.254 mm lies between the two and equals neither; the lookup returns
  the tabulated 1.53 g/m of 1.25 mm, not the interpolated 1.5404 g/m.
\<close>

theorem lookupLinearDensity_tolerance:
  "find (\<lambda>s. brand s = ''Luxilon'' \<and> name s = ''ALU Power'') STRING_DATABASE =
     Some \<lparr>brand = ''Luxilon'', name = ''ALU Power'', material = Polyester,
       gauges = [\<lparr>mm = 1.25, linearDensityGM = 1.53\<rparr>, \<lparr>mm = 1.30, linearDensityGM = 1.66\<rparr>]\<rparr> \<and>
   (1.25 :: real) < 1.254 \<and> (1.254 :: real) < 1.30 \<and>
   lookupLinearDensity ''Luxilon'' ''ALU Power'' 1.254 = Inr (Some 0.00153) \<and>
   interpolated \<lparr>mm = 1.25, linearDensityGM = 1.53\<rparr> \<lparr>mm = 1.30, linearDensityGM = 1.66\<rparr> 1.254
     = 0.0015404"
  by (simp add: find_ALU_Power lookupLinearDensity_def interpolated_def)

text \<open>
  C8, amended. For every string of the table and every gauge: the lookup returns a measured
  value, and the tension computation then uses it and not the solid cylinder; a gauge within
  0.005 mm of a tabulated gauge, an exact match in particular, gives that tabulated value;
  a gauge below the smallest or above the largest tabulated gauge gives the value of that
  endpoint; a gauge between two neighbouring tabulated gauges and not within 0.005 mm of a
  tabulated gauge gives the linear interpolation between the two. For a string that is
  not in the table the lookup returns nothing. The gauges of every entry are tabulated in
  rising order, at least 0.01 mm apart.
\<close>

theorem lookupLinearDensity_precedence:
  "(find (\<lambda>s. brand s = b \<and> name s = n) STRING_DATABASE = None \<longrightarrow>
      lookupLinearDensity b n q = Inr None) \<and>
   (\<forall>entry. find (\<lambda>s. brand s = b \<and> name s = n) STRING_DATABASE = Some entry \<longrightarrow>
      spacedGauges (gauges entry) \<and>
      (\<exists>d. lookupLinearDensity b n q = Inr (Some d) \<and>
         (\<forall>settings. stringKey settings = b @ ''|'' @ n \<and> CHR ''|'' \<notin> set b \<and> CHR ''|'' \<notin> set n \<longrightarrow>
            settingsLinearDensity settings q = Inr d)) \<and>
      (\<forall>g \<in> set (gauges entry). \<bar>mm g - q\<bar> < 0.005 \<longrightarrow>
         lookupLinearDensity b n q = Inr (Some (linearDensityGM g / 1000))) \<and>
      (q < mm (hd (gauges entry)) \<longrightarrow>
         lookupLinearDensity b n q = Inr (Some (linearDensityGM (hd (gauges entry)) / 1000))) \<and>
      (mm (last (gauges entry)) < q \<longrightarrow>
         lookupLinearDensity b n q = Inr (Some (linearDensityGM (last (gauges entry)) / 1000))) \<and>
      (\<forall>i. Suc i < length (gauges entry) \<and> mm (gauges entry ! i) \<le> q \<and>
           q \<le> mm (gauges entry ! Suc i) \<and> (\<forall>g \<in> set (gauges entry). \<not> \<bar>mm g - q\<bar> < 0.005) \<longrightarrow>
         lookupLinearDensity b n q =
           Inr (Some (interpolated (gauges entry ! i) (gauges entry ! Suc i) q))))"
proof (intro conjI allI impI ballI)
  assume "find (\<lambda>s. brand s = b \<and> name s = n) STRING_DATABASE = None"
  then show "lookupLinearDensity b n q = Inr None" by (simp add: lookupLinearDensity_entry)
next
  fix entry
  assume f: "find (\<lambda>s. brand s = b \<and> name s = n) STRING_DATABASE = Some entry"
  then have "entry \<in> set STRING_DATABASE" by (auto simp: find_Some_iff)
  then have sp: "spacedGauges (gauges entry)" using STRING_DATABASE_spaced by blast
  have l: "lookupLinearDensity b n q = lookupEntry (gauges entry) q"
    by (simp add: lookupLinearDensity_entry f)
  show "spacedGauges (gauges entry)" by (rule sp)
  show "\<exists>d. lookupLinearDensity b n q = Inr (Some d) \<and>
         (\<forall>settings. stringKey settings = b @ ''|'' @ n \<and> CHR ''|'' \<notin> set b \<and> CHR ''|'' \<notin> set n \<longrightarrow>
            settingsLinearDensity settings q = Inr d)"
  proof -
    from lookupEntry_found [OF sp] obtain d where d: "lookupLinearDensity b n q = Inr (Some d)"
      unfolding l by blast
    have "settingsLinearDensity settings q = Inr d"
      if "stringKey settings = b @ ''|'' @ n \<and> CHR ''|'' \<notin> set b \<and> CHR ''|'' \<notin> set n" for settings
      using that d by (simp add: settingsLinearDensity_def Let_def splitKey_bar)
    with d show ?thesis by blast
  qed
  show "lookupLinearDensity b n q = Inr (Some (linearDensityGM g / 1000))"
    if "g \<in> set (gauges entry)" "\<bar>mm g - q\<bar> < 0.005" for g
    unfolding l using that by (rule lookupEntry_near [OF sp])
  show "lookupLinearDensity b n q = Inr (Some (linearDensityGM (hd (gauges entry)) / 1000))"
    if "q < mm (hd (gauges entry))"
    unfolding l using that by (rule lookupEntry_below [OF sp])
  show "lookupLinearDensity b n q = Inr (Some (linearDensityGM (last (gauges entry)) / 1000))"
    if "mm (last (gauges entry)) < q"
    unfolding l using that by (rule lookupEntry_above [OF sp])
  show "lookupLinearDensity b n q =
      Inr (Some (interpolated (gauges entry ! i) (gauges entry ! Suc i) q))"
    if "Suc i < length (gauges entry) \<and> mm (gauges entry ! i) \<le> q \<and>
        q \<le> mm (gauges entry ! Suc i) \<and> (\<forall>g \<in> set (gauges entry). \<not> \<bar>mm g - q\<bar> < 0.005)" for i
    unfolding l using that by (intro lookupEntry_between [OF sp]) simp_all
qed

theorem lookupLinearDensity_precedence_witness:
  "lookupLinearDensity ''Luxilon'' ''ALU Power'' 1.25 = Inr (Some 0.00153) \<and>
   lookupLinearDensity ''Luxilon'' ''ALU Power'' 1.275 = Inr (Some 0.001595) \<and>
   lookupLinearDensity ''Luxilon'' ''ALU Power'' 1.1 = Inr (Some 0.00153) \<and>
   lookupLinearDensity ''Luxilon'' ''ALU Power'' 1.4 = Inr (Some 0.00166) \<and>
   lookupLinearDensity ''Acme'' ''Wire'' 1.25 = Inr None"
proof -
  let ?e = "\<lparr>brand = ''Luxilon'', name = ''ALU Power'', material = Polyester,
       gauges = [\<lparr>mm = 1.25, linearDensityGM = 1.53\<rparr>, \<lparr>mm = 1.30, linearDensityGM = 1.66\<rparr>]\<rparr>"
  have "lookupLinearDensity ''Luxilon'' ''ALU Power'' 1.25 = Inr (Some 0.00153)"
    using lookupLinearDensity_precedence [of "''Luxilon''" "''ALU Power''" "1.25"] find_ALU_Power
    by simp
  moreover have "lookupLinearDensity ''Luxilon'' ''ALU Power'' 1.275 = Inr (Some 0.001595)"
  proof -
    have "Suc 0 < length (gauges ?e) \<and> mm (gauges ?e ! 0) \<le> 1.275 \<and>
        1.275 \<le> mm (gauges ?e ! Suc 0) \<and> (\<forall>g \<in> set (gauges ?e). \<not> \<bar>mm g - 1.275\<bar> < 0.005)"
      by simp
    then have "lookupLinearDensity ''Luxilon'' ''ALU Power'' 1.275 =
        Inr (Some (interpolated (gauges ?e ! 0) (gauges ?e ! Suc 0) 1.275))"
      using lookupLinearDensity_precedence [of "''Luxilon''" "''ALU Power''" "1.275"] find_ALU_Power
      by blast
    then show ?thesis by (simp add: interpolated_def)
  qed
  moreover have "lookupLinearDensity ''Luxilon'' ''ALU Power'' 1.1 = Inr (Some 0.00153)"
    using lookupLinearDensity_precedence [of "''Luxilon''" "''ALU Power''" "1.1"] find_ALU_Power
    by simp
  moreover have "lookupLinearDensity ''Luxilon'' ''ALU Power'' 1.4 = Inr (Some 0.00166)"
    using lookupLinearDensity_precedence [of "''Luxilon''" "''ALU Power''" "1.4"] find_ALU_Power
    by simp
  moreover have "lookupLinearDensity ''Acme'' ''Wire'' 1.25 = Inr None"
    using lookupLinearDensity_precedence [of "''Acme''" "''Wire''" "1.25"] find_unknown
    by simp
  ultimately show ?thesis by simp
qed

subsection \<open>The signal window selector\<close>

declare scanWindows.simps [simp del] candidateOffsets.simps [simp del]

lemma chunkRms_nonneg: "0 \<le> chunkRms buf off"
proof -
  have "0 \<le> sum_list (map (\<lambda>x. x * x) xs)" for xs :: "real list"
    by (induction xs) simp_all
  then show ?thesis
    by (cases "0 \<le> min 4096 (int (length buf) - off)") (simp_all add: chunkRms_def Let_def)
qed

lemma candidateOffsets_le: "c \<in> set (candidateOffsets k) \<Longrightarrow> c \<le> k"
proof (induction k rule: candidateOffsets.induct)
  case (1 off)
  then show ?case
    by (cases "off \<ge> 0") (auto simp: candidateOffsets.simps [of off])
qed

text \<open>
  The loop invariant of the scan: either no block beat the incoming best value, or the
  result is a visited offset whose block strictly beat every block visited before it and
  is not beaten by any block visited after it.
\<close>

lemma scanWindows_inv:
  "scanWindows buf off best = (r, b) \<Longrightarrow>
     (r = fst best \<and> b = snd best \<and> (\<forall>c \<in> set (candidateOffsets off). chunkRms buf c \<le> fst best)) \<or>
     (b \<in> set (candidateOffsets off) \<and> r = chunkRms buf b \<and> fst best < r \<and>
      (\<forall>c \<in> set (candidateOffsets off). chunkRms buf c \<le> r) \<and>
      (\<forall>c \<in> set (candidateOffsets off). b < c \<longrightarrow> chunkRms buf c < r))"
proof (induction buf off best arbitrary: r b rule: scanWindows.induct)
  case (1 buf off bestRms bestOffset)
  show ?case
  proof (cases "off \<ge> 0")
    case False
    with "1.prems" show ?thesis
      by (simp add: scanWindows.simps candidateOffsets.simps)
  next
    case True
    define rms where "rms = chunkRms buf off"
    define best' where "best' = (if rms > bestRms then (rms, off) else (bestRms, bestOffset))"
    have cs: "candidateOffsets off = off # candidateOffsets (off - 4096)"
      using True by (simp add: candidateOffsets.simps [of off])
    have below: "\<forall>c \<in> set (candidateOffsets (off - 4096)). \<not> off < c"
      using candidateOffsets_le by fastforce
    have run: "scanWindows buf (off - 4096) best' = (r, b)"
      using "1.prems" True
      by (auto simp: scanWindows.simps [of buf off] rms_def best'_def Let_def)
    note ih = "1.IH" [OF True rms_def run [unfolded best'_def]]
    show ?thesis
    proof (cases "rms > bestRms")
      case True
      with ih below show ?thesis
        unfolding cs by (auto simp: rms_def)
    next
      case False
      with ih below show ?thesis
        unfolding cs by (auto simp: rms_def)
    qed
  qed
qed

lemma selectWindow_loud: "selectWindow (replicate 32768 1) = (1, 16384)"
  by (simp add: selectWindow_def scanWindows.simps chunkRms_def sum_list_replicate)

lemma selectWindow_silent: "selectWindow (replicate 32768 0) = (0, 16384)"
  by (simp add: selectWindow_def scanWindows.simps chunkRms_def sum_list_replicate)

lemma candidateOffsets_16384: "candidateOffsets 16384 = [16384, 12288, 8192, 4096, 0]"
  by (simp add: candidateOffsets.simps)

text \<open>
  C3 as the specification states it takes the root mean square of each candidate over the
  whole window of 16384 samples and keeps the offset where it is highest. On
  \<open>loudTailBuf\<close> the scan returns the offset 0 with the value 1, the value of the first
  block of 4096 samples; the window at offset 0 has the root mean square 1/2, and the
  window at the candidate offset 16384 has a higher one.
\<close>

theorem selectWindow_not_window_rms:
  "length loudTailBuf = 32768 \<and> selectWindow loudTailBuf = (1, 0) \<and>
   candidateOffsets (max 0 (int (length loudTailBuf) - 16384)) = [16384, 12288, 8192, 4096, 0] \<and>
   windowRms loudTailBuf 0 = 1 / 2 \<and>
   windowRms loudTailBuf 0 < windowRms loudTailBuf 16384"
proof -
  have "sqrt (1 / 4) = 1 / 2"
    by (rule real_sqrt_unique) (simp_all add: power2_eq_square)
  then have "windowRms loudTailBuf 0 = 1 / 2"
    by (simp add: windowRms_def loudTailBuf_def sum_list_replicate)
  moreover have "windowRms loudTailBuf 0 < windowRms loudTailBuf 16384"
    by (simp add: windowRms_def loudTailBuf_def sum_list_replicate)
  moreover have "selectWindow loudTailBuf = (1, 0)"
    by (simp add: selectWindow_def loudTailBuf_def scanWindows.simps chunkRms_def
        sum_list_replicate)
  moreover have "length loudTailBuf = 32768" by (simp add: loudTailBuf_def)
  ultimately show ?thesis by (simp add: candidateOffsets_16384)
qed

text \<open>
  C3, amended. The selector visits the offsets \<open>max 0 (len - 16384)\<close>, that less 4096, and
  so on down to the last one that is not negative. For each it takes the root mean square
  of the block of \<open>min 4096 (len - off)\<close> samples that starts there. It returns an offset it
  visited together with the root mean square of its block; no visited block has a higher
  one, and every block at a higher offset has a strictly lower one: on ties the highest
  offset wins.
\<close>

theorem selectWindow_best:
  assumes "selectWindow buf = (r, b)"
  defines "start \<equiv> max 0 (int (length buf) - 16384)"
  shows "b \<in> set (candidateOffsets start) \<and> r = chunkRms buf b \<and>
      (\<forall>c \<in> set (candidateOffsets start). chunkRms buf c \<le> r) \<and>
      (\<forall>c \<in> set (candidateOffsets start). b < c \<longrightarrow> chunkRms buf c < r)"
proof -
  have run: "scanWindows buf start (0, start) = (r, b)"
    using assms by (simp add: selectWindow_def Let_def)
  have "0 \<le> start" by (simp add: start_def)
  then have st: "start \<in> set (candidateOffsets start)"
    by (subst candidateOffsets.simps) simp
  from scanWindows_inv [OF run] show ?thesis
  proof
    assume a: "r = fst (0, start) \<and> b = snd (0, start) \<and>
      (\<forall>c\<in>set (candidateOffsets start). chunkRms buf c \<le> fst (0, start))"
    then have "chunkRms buf start = 0"
      using st chunkRms_nonneg [of buf start] by fastforce
    with a st show ?thesis
      using candidateOffsets_le by fastforce
  next
    assume "b \<in> set (candidateOffsets start) \<and> r = chunkRms buf b \<and> fst (0, start) < r \<and>
      (\<forall>c\<in>set (candidateOffsets start). chunkRms buf c \<le> r) \<and>
      (\<forall>c\<in>set (candidateOffsets start). b < c \<longrightarrow> chunkRms buf c < r)"
    then show ?thesis by blast
  qed
qed

theorem selectWindow_best_witness:
  "selectWindow (replicate 32768 1) = (1, 16384) \<and>
   16384 \<in> set (candidateOffsets (max 0 (int (length (replicate 32768 (1::real))) - 16384))) \<and>
   chunkRms (replicate 32768 1) 16384 = 1 \<and>
   chunkRms (replicate 32768 1) 0 \<le> 1"
proof -
  have c: "candidateOffsets (max 0 (int (length (replicate 32768 (1::real))) - 16384))
      = [16384, 12288, 8192, 4096, 0]"
    by (simp add: candidateOffsets_16384)
  from selectWindow_best [OF selectWindow_loud] show ?thesis
    unfolding c by (simp add: selectWindow_loud)
qed

text \<open>
  A block is never louder than the largest sample: on a buffer whose samples all stay
  below the threshold in magnitude the selected block is below the threshold.
\<close>

lemma sum_squares_le:
  "\<forall>x \<in> set xs. \<bar>x\<bar> \<le> a \<Longrightarrow> sum_list (map (\<lambda>x. x * x) xs) \<le> real (length xs) * (a * a)"
proof (induction xs)
  case Nil
  then show ?case by simp
next
  case (Cons x xs)
  then have "\<bar>x\<bar> \<le> a" by simp
  then have "\<bar>x\<bar> * \<bar>x\<bar> \<le> a * a" by (intro mult_mono) simp_all
  then have "x * x \<le> a * a" by (simp add: abs_mult_self_eq)
  with Cons show ?case by (simp add: algebra_simps)
qed

lemma chunkRms_le:
  assumes "\<forall>x \<in> set buf. \<bar>x\<bar> \<le> a" and "0 \<le> a"
  shows "chunkRms buf off \<le> a"
proof -
  define checkLen where "checkLen = min 4096 (int (length buf) - off)"
  define xs where "xs = take (nat checkLen) (drop (nat off) buf)"
  have r: "chunkRms buf off = sqrt (sum_list (map (\<lambda>x. x * x) xs) / of_int checkLen)"
    by (simp add: chunkRms_def Let_def checkLen_def xs_def)
  show ?thesis
  proof (cases "0 < checkLen")
    case False
    then have "xs = []" by (simp add: xs_def)
    with assms(2) show ?thesis by (simp add: r)
  next
    case True
    have "set xs \<subseteq> set buf"
      unfolding xs_def by (meson set_take_subset set_drop_subset subset_trans)
    with assms(1) have "\<forall>x \<in> set xs. \<bar>x\<bar> \<le> a" by blast
    then have "sum_list (map (\<lambda>x. x * x) xs) \<le> real (length xs) * (a * a)"
      by (rule sum_squares_le)
    also have "real (length xs) \<le> of_int checkLen"
      using True by (simp add: xs_def)
    then have "real (length xs) * (a * a) \<le> of_int checkLen * (a * a)"
      by (intro mult_right_mono) simp_all
    finally have "sum_list (map (\<lambda>x. x * x) xs) / of_int checkLen \<le> a * a"
      using True by (simp add: field_simps)
    then have "sqrt (sum_list (map (\<lambda>x. x * x) xs) / of_int checkLen) \<le> sqrt (a * a)"
      by (rule real_sqrt_le_mono)
    with assms(2) show ?thesis by (simp add: r)
  qed
qed

lemma selectWindow_rms: "selectWindow buf = (r, b) \<Longrightarrow> r = chunkRms buf b"
proof -
  assume "selectWindow buf = (r, b)"
  then have run: "scanWindows buf (max 0 (int (length buf) - 16384))
      (0, max 0 (int (length buf) - 16384)) = (r, b)"
    by (simp add: selectWindow_def Let_def)
  have st: "max 0 (int (length buf) - 16384) \<in> set (candidateOffsets (max 0 (int (length buf) - 16384)))"
    by (subst candidateOffsets.simps) simp
  from scanWindows_inv [OF run] show ?thesis
  proof
    assume a: "r = fst (0 :: real, max 0 (int (length buf) - 16384)) \<and>
      b = snd (0 :: real, max 0 (int (length buf) - 16384)) \<and>
      (\<forall>c\<in>set (candidateOffsets (max 0 (int (length buf) - 16384))).
          chunkRms buf c \<le> fst (0 :: real, max 0 (int (length buf) - 16384)))"
    with st have "chunkRms buf b \<le> 0" by auto
    with a chunkRms_nonneg [of buf b] show ?thesis by simp
  qed blast
qed

lemma selectWindow_quiet:
  assumes "\<forall>x \<in> set buf. \<bar>x\<bar> \<le> a" and "0 \<le> a"
  shows "fst (selectWindow buf) \<le> a"
  using chunkRms_le [OF assms] selectWindow_rms [of buf]
  by (cases "selectWindow buf") simp

subsection \<open>The spectral estimator\<close>

text \<open>The transform keeps the lengths of its arrays: the spectrum has 32768 bins.\<close>

declare bitReverseCarry.simps [simp del] bitReversal.simps [simp del]
  butterflyInner.simps [simp del] butterflyBlocks.simps [simp del]
  butterflyPasses.simps [simp del] peakLoop.simps [simp del]

lemma length_swap [simp]: "length (swap xs i j) = length xs"
  by (simp add: swap_def Let_def)











text \<open>
  The transform of a click. The permutation moves the entry at the index \<open>i\<close> to the index
  \<open>revBits 15 i\<close>: the carry loop turns the reversed digits of \<open>x\<close> into those of \<open>x + 1\<close>.
\<close>

lemma revBits_less: "revBits k i < 2 ^ k"
proof (induction k arbitrary: i)
  case 0
  then show ?case by simp
next
  case (Suc k)
  have "i mod 2 = 0 \<or> i mod 2 = 1" by arith
  with Suc [of "i div 2"] show ?case by auto
qed

lemma revBits_zero: "i < 2 ^ k \<Longrightarrow> revBits k i = 0 \<Longrightarrow> i = 0"
proof (induction k arbitrary: i)
  case 0
  then show ?case by simp
next
  case (Suc k)
  from Suc.prems(2) have m: "i mod 2 = 0" and r: "revBits k (i div 2) = 0" by auto
  from Suc.prems(1) have "i div 2 < 2 ^ k" by simp
  with Suc.IH r have "i div 2 = 0" by blast
  with m show ?case by arith
qed

lemma low_and_exp: "r < 2 ^ k \<Longrightarrow> (r :: nat) AND 2 ^ k = 0"
  by (simp add: and_exp_eq_0_iff_not_bit bit_nat_def)

lemma low_xor_exp: "r < 2 ^ k \<Longrightarrow> (r :: nat) XOR 2 ^ k = 2 ^ k + r"
  using disjunctive_add_eq_xor [OF low_and_exp, of r k] by simp

lemma high_and_exp: "r < 2 ^ k \<Longrightarrow> (2 ^ k + r :: nat) AND 2 ^ k \<noteq> 0"
  by (simp add: and_exp_eq_0_iff_not_bit bit_nat_def)

lemma high_xor_exp: "r < 2 ^ k \<Longrightarrow> (2 ^ k + r :: nat) XOR 2 ^ k = r"
proof -
  assume "r < 2 ^ k"
  then have "2 ^ k + r = r XOR 2 ^ k" by (simp add: low_xor_exp)
  then show ?thesis by (simp add: xor.assoc)
qed

lemma bitReverseCarry_revBits:
  "Suc x < 2 ^ m \<Longrightarrow>
     (case bitReverseCarry (revBits m x) (drop_bit 1 (2 ^ m)) of (j1, bt) \<Rightarrow> j1 XOR bt)
       = revBits m (Suc x)"
proof (induction m arbitrary: x)
  case 0
  then show ?case by simp
next
  case (Suc k)
  have d: "drop_bit 1 (2 ^ Suc k :: nat) = 2 ^ k" by (simp add: drop_bit_eq_div)
  define r where "r = revBits k (x div 2)"
  have r: "r < 2 ^ k" by (simp add: r_def revBits_less)
  show ?case
  proof (cases "even x")
    case True
    then have e: "revBits (Suc k) x = r" by (simp add: r_def)
    from True have t: "Suc x div 2 = x div 2" "Suc x mod 2 = 1" by presburger+
    have "revBits (Suc k) (Suc x) = 2 ^ k + r"
      by (simp add: r_def t del: mod_Suc div_Suc)
    moreover have "bitReverseCarry r (2 ^ k) = (r, 2 ^ k)"
      by (subst bitReverseCarry.simps) (simp add: low_and_exp [OF r])
    ultimately show ?thesis
      unfolding e d by (simp add: low_xor_exp [OF r] del: revBits.simps)
  next
    case False
    then have e: "revBits (Suc k) x = 2 ^ k + r" by (simp add: r_def odd_iff_mod_2_eq_one)
    from False have s: "Suc x div 2 = Suc (x div 2)" "Suc x mod 2 = 0" by presburger+
    have n: "revBits (Suc k) (Suc x) = revBits k (Suc (x div 2))" by (simp add: s del: mod_Suc div_Suc)
    from Suc.prems s have "Suc (x div 2) < 2 ^ k" by simp
    from Suc.IH [OF this] have ih:
      "(case bitReverseCarry r (drop_bit 1 (2 ^ k)) of (j1, bt) \<Rightarrow> j1 XOR bt) = revBits k (Suc (x div 2))"
      by (simp add: r_def)
    have "bitReverseCarry (2 ^ k + r) (2 ^ k) = bitReverseCarry r (drop_bit 1 (2 ^ k))"
      by (subst bitReverseCarry.simps) (simp add: high_and_exp [OF r] high_xor_exp [OF r])
    with ih show ?thesis
      unfolding e d n by simp
  qed
qed

lemma length_impulse [simp]: "length (impulse p c) = 32768"
  by (simp add: impulse_def)

lemma nth_impulse: "k < 32768 \<Longrightarrow> impulse p c ! k = (if k = p then c else 0)"
  by (simp add: impulse_def nth_list_update)

lemma replicate_update_same [simp]: "(replicate n x)[i := x] = replicate n x"
  by (cases "i < n") (simp_all add: list_eq_iff_nth_eq nth_list_update)

lemma swap_same:
  assumes "xs ! i = xs ! j"
  shows "swap xs i j = xs"
proof -
  have "swap xs i j = (xs[i := xs ! i])[j := xs ! j]"
    unfolding swap_def Let_def using assms by simp
  then show ?thesis by simp
qed



lemma revBits_0 [simp]: "revBits k 0 = 0"
  by (induction k) simp_all

lemma revBits_1: "revBits (Suc k) 1 = 2 ^ k"
  by simp

lemma revBits_15_1: "revBits 15 (Suc 0) = 16384"
proof -
  have "revBits (Suc 14) 1 = 2 ^ 14" by (rule revBits_1)
  then show ?thesis by (simp del: revBits.simps)
qed

lemma revBits_top:
  assumes "i < 2 ^ Suc k" and "revBits (Suc k) i = 2 ^ k"
  shows "i = 1"
proof -
  have r: "revBits k (i div 2) < 2 ^ k" by (rule revBits_less)
  have "i mod 2 = 0 \<or> i mod 2 = 1" by arith
  then show ?thesis
  proof
    assume "i mod 2 = 0"
    with assms(2) r show ?thesis by simp
  next
    assume m: "i mod 2 = 1"
    with assms(2) have "revBits k (i div 2) = 0" by simp
    moreover from assms(1) have "i div 2 < 2 ^ k" by simp
    ultimately have "i div 2 = 0" by (rule revBits_zero [rotated])
    with m show ?thesis by arith
  qed
qed

lemma revBits_even_less: "even i \<Longrightarrow> revBits (Suc k) i < 2 ^ k"
  by (simp add: revBits_less)

lemma pow15: "(2 :: nat) ^ 15 = 32768" "(2 :: nat) ^ 14 = 16384"
  by simp_all

lemma bitReversal_tail:
  "2 \<le> i \<Longrightarrow> i \<le> 32768 \<Longrightarrow> j = revBits 15 (i - 1) \<Longrightarrow>
     bitReversal 32768 i j (impulse 16384 c, replicate 32768 0) = (impulse 16384 c, replicate 32768 0)"
proof (induction "32768 - i" arbitrary: i j)
  case 0
  then have "\<not> i < 32768" by simp
  then show ?case by (subst bitReversal.simps) simp
next
  case (Suc d)
  then have lt: "i < 32768" by simp
  obtain j1 bt where c: "bitReverseCarry j 16384 = (j1, bt)"
    by (cases "bitReverseCarry j 16384")
  define j2 where "j2 = j1 XOR bt"
  have db: "drop_bit 1 (2 ^ 15 :: nat) = 16384" by simp
  have "Suc (i - 1) < 2 ^ 15" using lt Suc.prems by simp
  from bitReverseCarry_revBits [OF this, unfolded db] c Suc.prems
  have j2: "j2 = revBits 15 i" by (simp add: j2_def)
  have j2lt: "j2 < 32768" using revBits_less [of 15 i] by (simp add: j2)
  have f15: "revBits 15 x = revBits (Suc 14) x" for x by (simp del: revBits.simps)
  have nH: "j2 \<noteq> 16384"
  proof
    assume "j2 = 16384"
    then have "revBits (Suc 14) i = 2 ^ 14" unfolding j2 f15 by simp
    moreover have "i < 2 ^ Suc 14" using lt by simp
    ultimately have "i = 1" by (rule revBits_top [rotated])
    with Suc.prems show False by simp
  qed
  have noswap: "(if i < j2 then (swap (impulse 16384 c) i j2, swap (replicate 32768 0) i j2)
      else (impulse 16384 c, replicate 32768 0)) = (impulse 16384 c, replicate 32768 0)"
  proof (cases "i < j2")
    case False
    then show ?thesis by simp
  next
    case True
    have "i \<noteq> 16384"
    proof
      assume i: "i = 16384"
      have "revBits (Suc 14) 16384 < 2 ^ 14" by (rule revBits_even_less) simp
      with True show False unfolding j2 i f15 by simp
    qed
    then have "impulse 16384 c ! i = impulse 16384 c ! j2"
      using lt j2lt nH by (simp add: nth_impulse)
    then have "swap (impulse 16384 c) i j2 = impulse 16384 c"
      by (rule swap_same)
    moreover have "swap (replicate 32768 0) i j2 = replicate 32768 (0 :: real)"
      using lt j2lt by (intro swap_same) simp
    ultimately show ?thesis by simp
  qed
  have next_: "bitReversal 32768 (Suc i) j2 (impulse 16384 c, replicate 32768 0)
      = (impulse 16384 c, replicate 32768 0)"
    using Suc.hyps(1) [of "i + 1" j2] Suc.hyps(2) Suc.prems lt by (simp add: j2)
  show ?case
    by (subst bitReversal.simps)
      (simp add: lt c Let_def noswap [unfolded j2_def] next_ [unfolded j2_def])
qed

lemma bitReversal_impulse:
  "bitReversal 32768 1 0 (impulse 1 c, replicate 32768 0) = (impulse 16384 c, replicate 32768 0)"
proof -
  obtain j1 bt where c: "bitReverseCarry 0 16384 = (j1, bt)"
    by (cases "bitReverseCarry 0 16384")
  have db: "drop_bit 1 (2 ^ 15 :: nat) = 16384" by simp
  have "Suc 0 < 2 ^ 15" by simp
  from bitReverseCarry_revBits [OF this, unfolded revBits_0 db] c have j2: "j1 XOR bt = 16384"
    by (simp add: revBits_15_1 del: revBits.simps)
  have s1: "swap (impulse (Suc 0) c) (Suc 0) 16384 = impulse 16384 c"
    by (simp add: swap_def impulse_def Let_def list_update_swap)
  have s2: "swap (replicate 32768 0) (Suc 0) 16384 = replicate 32768 (0 :: real)"
    by (intro swap_same) simp
  have "bitReversal 32768 (Suc (Suc 0)) 16384 (impulse 16384 c, replicate 32768 0)
      = (impulse 16384 c, replicate 32768 0)"
    by (rule bitReversal_tail) (simp_all add: revBits_15_1 del: revBits.simps)
  then show ?thesis
    by (subst bitReversal.simps) (simp add: c j2 Let_def s1 s2)
qed

text \<open>
  In a butterfly whose upper half is zero the lower half is copied up: the passes for
  \<open>len\<close> from 2 to 16384 spread the entry at 16384 over the upper half of the arrays. The
  last pass multiplies it by the twiddle factors, which have the modulus 1.
\<close>

lemma length_copyUp [simp]: "length (copyUp xs i m j) = length xs"
  by (simp add: copyUp_def)

lemma nth_copyUp:
  "k < length xs \<Longrightarrow>
     copyUp xs i m j ! k = (if i + m + j \<le> k \<and> k < i + 2 * m then xs ! (k - m) else xs ! k)"
  by (simp add: copyUp_def)

lemma copyUp_done: "m \<le> j \<Longrightarrow> copyUp xs i m j = xs"
  by (rule nth_equalityI) (simp_all add: nth_copyUp)

lemma copyUp_step:
  assumes "j < m" "i + 2 * m \<le> length xs"
  shows "copyUp (xs[i + j + m := xs ! (i + j)]) i m (Suc j) = copyUp xs i m j"
proof (rule nth_equalityI)
  show "length (copyUp (xs[i + j + m := xs ! (i + j)]) i m (Suc j)) = length (copyUp xs i m j)"
    by simp
next
  fix k
  assume "k < length (copyUp (xs[i + j + m := xs ! (i + j)]) i m (Suc j))"
  then have k: "k < length xs" by simp
  consider (a) "k = i + j + m" | (b) "i + m + Suc j \<le> k \<and> k < i + 2 * m"
    | (c) "k < i + m + j \<or> i + 2 * m \<le> k" by arith
  then show "copyUp (xs[i + j + m := xs ! (i + j)]) i m (Suc j) ! k = copyUp xs i m j ! k"
  proof cases
    case a
    then show ?thesis using k assms by (simp add: copyUp_def)
  next
    case b
    then have "k - m \<noteq> i + j + m" using assms by arith
    then show ?thesis using k b assms by (simp add: copyUp_def)
  next
    case c
    then have "k \<noteq> i + j + m" using assms by arith
    then show ?thesis using k c assms by (auto simp: copyUp_def)
  qed
qed

lemma update_pair_same:
  "0 < m \<Longrightarrow> (xs :: real list)[i + j + m := xs ! (i + j), i + j := xs ! (i + j)]
     = xs[i + j + m := xs ! (i + j)]"
  by (subst list_update_swap) simp_all

lemma butterflyInner_copy:
  assumes "i + 2 * m \<le> length re" "length im = length re"
    "\<forall>k. i + m + j \<le> k \<and> k < i + 2 * m \<longrightarrow> re ! k = 0 \<and> im ! k = 0"
  shows "butterflyInner m i j wRe wIm (a, b) (re, im) = (copyUp re i m j, copyUp im i m j)"
  using assms
proof (induction "m - j" arbitrary: j a b re im)
  case 0
  then have "\<not> j < m" by simp
  then show ?case by (subst butterflyInner.simps) (simp add: copyUp_done)
next
  case (Suc d)
  then have lt: "j < m" by simp
  have z: "re ! (i + j + m) = 0" "im ! (i + j + m) = 0"
    using Suc.prems(3) [rule_format, of "i + j + m"] lt by simp_all
  let ?re1 = "re[i + j + m := re ! (i + j)]"
  let ?im1 = "im[i + j + m := im ! (i + j)]"
  have IH: "butterflyInner m i (Suc j) wRe wIm (a', b') (?re1, ?im1)
      = (copyUp ?re1 i m (Suc j), copyUp ?im1 i m (Suc j))" for a' b'
  proof (rule Suc.hyps(1))
    show "d = m - Suc j" using Suc.hyps(2) by simp
    show "i + 2 * m \<le> length ?re1" using Suc.prems(1) by simp
    show "length ?im1 = length ?re1" using Suc.prems(2) by simp
    show "\<forall>k. i + m + Suc j \<le> k \<and> k < i + 2 * m \<longrightarrow> ?re1 ! k = 0 \<and> ?im1 ! k = 0"
      using Suc.prems(3) by (simp add: nth_list_update)
  qed
  have m: "0 < m" using lt by simp
  have st: "copyUp ?re1 i m (Suc j) = copyUp re i m j" "copyUp ?im1 i m (Suc j) = copyUp im i m j"
    using lt Suc.prems(1,2) by (simp_all add: copyUp_step)
  show ?case
    by (subst butterflyInner.simps)
      (simp add: lt z Let_def update_pair_same [OF m] IH st)
qed

lemma length_blk [simp]: "length (blk m c) = 32768"
  by (simp add: blk_def)

lemma nth_blk: "k < 32768 \<Longrightarrow> blk m c ! k = (if 16384 \<le> k \<and> k < 16384 + m then c else 0)"
  by (simp add: blk_def)

lemma blk_1: "blk 1 c = impulse 16384 c"
  by (rule nth_equalityI) (auto simp: nth_blk nth_impulse)

lemma copyUp_zeros: "copyUp (replicate n 0) i m j = replicate n 0"
  by (rule nth_equalityI) (simp_all add: nth_copyUp)

lemma copyUp_blk_low:
  "i + 2 * m \<le> 16384 \<Longrightarrow> copyUp (blk m' c) i m 0 = blk m' c"
  by (rule nth_equalityI) (auto simp: nth_copyUp nth_blk)

lemma copyUp_blk_high:
  "16384 + m' \<le> i \<Longrightarrow> i + 2 * m \<le> 32768 \<Longrightarrow> copyUp (blk m' c) i m 0 = blk m' c"
  by (rule nth_equalityI) (auto simp: nth_copyUp nth_blk)

lemma copyUp_blk_H:
  "m \<le> 8192 \<Longrightarrow> copyUp (blk m c) 16384 m 0 = blk (2 * m) c"
  by (rule nth_equalityI) (auto simp: nth_copyUp nth_blk)

lemma dvd_step: "(L :: nat) dvd i \<Longrightarrow> L dvd n \<Longrightarrow> i < n \<Longrightarrow> i + L \<le> n"
proof -
  assume a: "L dvd i" "L dvd n" "i < n"
  then have "L dvd n - i" by (simp add: dvd_diff_nat)
  moreover have "0 < n - i" using a by simp
  ultimately have "L \<le> n - i" by (rule dvd_imp_le)
  then show ?thesis using a by simp
qed

lemma butterflyBlocks_copy:
  assumes "2 * m dvd 16384" "0 < m" "m \<le> 8192"
  shows "2 * m dvd i \<Longrightarrow> i \<le> 32768 \<Longrightarrow>
    butterflyBlocks (2 * m) 32768 i wRe wIm
      (if i \<le> 16384 then blk m c else blk (2 * m) c, replicate 32768 0)
     = (blk (2 * m) c, replicate 32768 0)"
proof (induction "32768 - i" arbitrary: i rule: less_induct)
  case less
  have dN: "2 * m dvd 32768"
  proof -
    have "2 * m dvd 2 * 16384" using assms(1) by (rule dvd_mult)
    then show ?thesis by simp
  qed
  show ?case
  proof (cases "i < 32768")
    case False
    with less.prems have "i = 32768" by simp
    then show ?thesis by (subst butterflyBlocks.simps) simp
  next
    case True
    have top: "i + 2 * m \<le> 32768" using less.prems(1) dN True by (rule dvd_step)
    have nxt: "2 * m dvd i + 2 * m" using less.prems(1) by simp
    have IH: "butterflyBlocks (2 * m) 32768 (i + 2 * m) wRe wIm
        (if i + 2 * m \<le> 16384 then blk m c else blk (2 * m) c, replicate 32768 0)
       = (blk (2 * m) c, replicate 32768 0)"
      using less.hyps [of "i + 2 * m"] nxt top True assms(2) by simp
    consider (low) "i < 16384" | (mid) "i = 16384" | (high) "16384 < i" by arith
    then show ?thesis
    proof cases
      case low
      have b: "i + 2 * m \<le> 16384" using less.prems(1) assms(1) low by (rule dvd_step)
      have "butterflyInner m i 0 wRe wIm (1, 0) (blk m c, replicate 32768 0)
          = (copyUp (blk m c) i m 0, copyUp (replicate 32768 0) i m 0)"
        using b by (intro butterflyInner_copy) (simp_all add: nth_blk)
      then have inner: "butterflyInner m i 0 wRe wIm (1, 0) (blk m c, replicate 32768 0)
          = (blk m c, replicate 32768 0)"
        using b by (simp add: copyUp_zeros copyUp_blk_low)
      show ?thesis
        using IH b low True assms(2) by (subst butterflyBlocks.simps) (simp add: inner)
    next
      case mid
      have "butterflyInner m 16384 0 wRe wIm (1, 0) (blk m c, replicate 32768 0)
          = (copyUp (blk m c) 16384 m 0, copyUp (replicate 32768 0) 16384 m 0)"
        using assms(3) by (intro butterflyInner_copy) (simp_all add: nth_blk)
      then have inner: "butterflyInner m 16384 0 wRe wIm (1, 0) (blk m c, replicate 32768 0)
          = (blk (2 * m) c, replicate 32768 0)"
        using assms(3) by (simp add: copyUp_zeros copyUp_blk_H)
      show ?thesis
        using IH mid assms(2) by (subst butterflyBlocks.simps) (simp add: inner)
    next
      case high
      have b: "16384 + 2 * m \<le> i" using assms(1) less.prems(1) high by (rule dvd_step)
      have "butterflyInner m i 0 wRe wIm (1, 0) (blk (2 * m) c, replicate 32768 0)
          = (copyUp (blk (2 * m) c) i m 0, copyUp (replicate 32768 0) i m 0)"
        using b top by (intro butterflyInner_copy) (simp_all add: nth_blk)
      then have inner: "butterflyInner m i 0 wRe wIm (1, 0) (blk (2 * m) c, replicate 32768 0)
          = (blk (2 * m) c, replicate 32768 0)"
        using b top by (simp add: copyUp_zeros copyUp_blk_high)
      show ?thesis
        using IH b high True assms(2) by (subst butterflyBlocks.simps) (simp add: inner)
    qed
  qed
qed

lemma unit_mult:
  fixes a b u v :: real
  assumes "a * a + b * b = 1" "u * u + v * v = 1"
  shows "(a * u - b * v) * (a * u - b * v) + (a * v + b * u) * (a * v + b * u) = 1"
proof -
  have "(a * u - b * v) * (a * u - b * v) + (a * v + b * u) * (a * v + b * u)
      = (a * a + b * b) * (u * u + v * v)"
    by (simp add: algebra_simps)
  then show ?thesis using assms by simp
qed

lemma unit_scale:
  fixes a b c :: real
  assumes "a * a + b * b = 1"
  shows "(a * c) * (a * c) + (b * c) * (b * c) = c * c"
proof -
  have "(a * c) * (a * c) + (b * c) * (b * c) = (a * a + b * b) * (c * c)"
    by (simp add: algebra_simps)
  then show ?thesis using assms by simp
qed

lemma butterflyInner_final:
  assumes "wRe * wRe + wIm * wIm = 1"
  shows "finalInv j c re im \<Longrightarrow> j \<le> 16384 \<Longrightarrow> a * a + b * b = 1 \<Longrightarrow>
    flatSpectrum c (butterflyInner 16384 0 j wRe wIm (a, b) (re, im))"
proof (induction "16384 - j" arbitrary: j a b re im)
  case 0
  then have j: "j = 16384" by simp
  have "re ! k * re ! k + im ! k * im ! k = c * c" if k: "k < 32768" for k
  proof -
    have "if k < 16384 \<or> (16384 \<le> k \<and> k < 16384 + 16384)
         then re ! k * re ! k + im ! k * im ! k = c * c
         else im ! k = 0 \<and> re ! k = (if k < 16384 then 0 else c)"
      using "0.prems"(1) k unfolding finalInv_def j by blast
    moreover have "k < 16384 \<or> (16384 \<le> k \<and> k < 16384 + 16384)" using k by arith
    ultimately show ?thesis by simp
  qed
  moreover have "length re = 32768" "length im = 32768"
    using "0.prems"(1) by (simp_all add: finalInv_def)
  ultimately have "flatSpectrum c (re, im)" by (simp add: flatSpectrum_def)
  then show ?case using j by (subst butterflyInner.simps) simp
next
  case (Suc d)
  then have lt: "j < 16384" by simp
  have len: "length re = 32768" "length im = 32768"
    using Suc.prems(1) by (simp_all add: finalInv_def)
  have lo: "re ! j = 0" "im ! j = 0"
    using Suc.prems(1) [unfolded finalInv_def] lt
    by (auto dest!: spec [of _ j])
  have hi: "re ! (j + 16384) = c" "im ! (j + 16384) = 0"
    using Suc.prems(1) [unfolded finalInv_def] lt
    by (auto dest!: spec [of _ "j + 16384"])
  let ?re2 = "re[j + 16384 := - (a * c), j := a * c]"
  let ?im2 = "im[j + 16384 := - (b * c), j := b * c]"
  have sc: "(a * c) * (a * c) + (b * c) * (b * c) = c * c"
    using Suc.prems(3) by (rule unit_scale)
  have inv: "finalInv (Suc j) c ?re2 ?im2"
    unfolding finalInv_def
  proof (intro conjI allI impI)
    show "length ?re2 = 32768" "length ?im2 = 32768" using len by simp_all
  next
    fix k :: nat
    assume k: "k < 32768"
    consider (a) "k = j" | (b) "k = j + 16384" | (c) "k \<noteq> j \<and> k \<noteq> j + 16384" by arith
    then show "if k < Suc j \<or> (16384 \<le> k \<and> k < 16384 + Suc j)
         then ?re2 ! k * ?re2 ! k + ?im2 ! k * ?im2 ! k = c * c
         else ?im2 ! k = 0 \<and> ?re2 ! k = (if k < 16384 then 0 else c)"
    proof cases
      case a
      then show ?thesis using lt len sc by simp
    next
      case b
      then show ?thesis using lt len sc by simp
    next
      case c
      have old: "if k < j \<or> (16384 \<le> k \<and> k < 16384 + j)
         then re ! k * re ! k + im ! k * im ! k = c * c
         else im ! k = 0 \<and> re ! k = (if k < 16384 then 0 else c)"
        using Suc.prems(1) k unfolding finalInv_def by blast
      have same: "?re2 ! k = re ! k" "?im2 ! k = im ! k" using c by simp_all
      have cond: "(k < Suc j \<or> (16384 \<le> k \<and> k < 16384 + Suc j))
          = (k < j \<or> (16384 \<le> k \<and> k < 16384 + j))"
        using c by arith
      show ?thesis unfolding same cond by (rule old)
    qed
  qed
  have un: "(a * wRe - b * wIm) * (a * wRe - b * wIm) + (a * wIm + b * wRe) * (a * wIm + b * wRe) = 1"
    using Suc.prems(3) assms by (rule unit_mult)
  have IH: "flatSpectrum c (butterflyInner 16384 0 (Suc j) wRe wIm
      (a * wRe - b * wIm, a * wIm + b * wRe) (?re2, ?im2))"
    using Suc.hyps(2) lt by (intro Suc.hyps(1) inv un) simp_all
  show ?case
    using IH lt by (subst butterflyInner.simps) (simp add: lo hi Let_def)
qed

lemma finalInv_blk: "finalInv 0 c (blk 16384 c) (replicate 32768 0)"
  unfolding finalInv_def by (auto simp: nth_blk)

lemma twiddle_unit: "cos x * cos x + sin x * sin x = (1 :: real)"
  by (rule sin_cos_squared_add3)

lemma butterflyPasses_step:
  "len \<le> n \<Longrightarrow> 0 < len \<Longrightarrow>
     butterflyPasses len n (re, im)
       = butterflyPasses (len * 2) n
           (butterflyBlocks len n 0 (cos (- 2 * pi / real len)) (sin (- 2 * pi / real len)) (re, im))"
  by (subst butterflyPasses.simps) (simp add: Let_def)

lemma butterflyBlocks_final:
  assumes w: "wRe * wRe + wIm * wIm = 1"
  shows "flatSpectrum c (butterflyBlocks 32768 32768 0 wRe wIm (blk 16384 c, replicate 32768 0))"
proof -
  obtain re' im' where r: "butterflyInner 16384 0 0 wRe wIm (1, 0) (blk 16384 c, replicate 32768 0) = (re', im')"
    by (cases "butterflyInner 16384 0 0 wRe wIm (1, 0) (blk 16384 c, replicate 32768 0)")
  have "flatSpectrum c (butterflyInner 16384 0 0 wRe wIm (1, 0) (blk 16384 c, replicate 32768 0))"
    by (rule butterflyInner_final [OF w finalInv_blk]) simp_all
  then have f: "flatSpectrum c (re', im')" by (simp add: r)
  have b2: "butterflyBlocks 32768 32768 32768 wRe wIm (re', im') = (re', im')"
    by (subst butterflyBlocks.simps) simp
  have b1: "butterflyBlocks 32768 32768 0 wRe wIm (blk 16384 c, replicate 32768 0) = (re', im')"
    by (subst butterflyBlocks.simps) (simp add: r b2)
  show ?thesis unfolding b1 by (rule f)
qed

lemma butterflyPasses_final:
  "flatSpectrum c (butterflyPasses 32768 32768 (blk 16384 c, replicate 32768 0))"
proof -
  let ?wRe = "cos (- 2 * pi / real (32768 :: nat))"
  let ?wIm = "sin (- 2 * pi / real (32768 :: nat))"
  let ?X = "(blk 16384 c, replicate 32768 (0 :: real))"
  have s: "butterflyPasses 32768 32768 ?X
      = butterflyPasses (32768 * 2) 32768 (butterflyBlocks 32768 32768 0 ?wRe ?wIm ?X)"
    by (rule butterflyPasses_step) simp_all
  obtain re' im' where r: "butterflyBlocks 32768 32768 0 ?wRe ?wIm ?X = (re', im')"
    by (cases "butterflyBlocks 32768 32768 0 ?wRe ?wIm ?X")
  have "flatSpectrum c (butterflyBlocks 32768 32768 0 ?wRe ?wIm ?X)"
    by (rule butterflyBlocks_final) (rule twiddle_unit)
  then have f: "flatSpectrum c (re', im')" unfolding r .
  have p2: "butterflyPasses (32768 * 2) 32768 (re', im') = (re', im')"
    by (subst butterflyPasses.simps) simp
  show ?thesis unfolding s r p2 by (rule f)
qed

lemma butterflyPasses_copy:
  "e \<le> 14 \<Longrightarrow> flatSpectrum c (butterflyPasses (2 * 2 ^ e) 32768 (blk (2 ^ e) c, replicate 32768 0))"
proof (induction "14 - e" arbitrary: e)
  case 0
  then have e: "e = 14" by simp
  show ?case unfolding e using butterflyPasses_final [of c] by simp
next
  case (Suc d)
  then have lt: "e < 14" by simp
  have le: "Suc e \<le> 14" using lt by simp
  have "(2 :: nat) ^ Suc e \<le> 2 ^ 14" using le by (rule power_increasing) simp
  then have m: "2 * 2 ^ e \<le> (16384 :: nat)" by simp
  have "(2 :: nat) ^ Suc e dvd 2 ^ 14" using le by (rule le_imp_power_dvd)
  then have d: "2 * 2 ^ e dvd (16384 :: nat)" by simp
  have blocks: "butterflyBlocks (2 * 2 ^ e) 32768 0 wRe wIm (blk (2 ^ e) c, replicate 32768 0)
      = (blk (2 * 2 ^ e) c, replicate 32768 0)" for wRe wIm
    using butterflyBlocks_copy [OF d, of 0 wRe wIm c] m by simp
  have IH: "flatSpectrum c (butterflyPasses (2 * 2 ^ Suc e) 32768 (blk (2 ^ Suc e) c, replicate 32768 0))"
    using Suc.hyps(2) le by (intro Suc.hyps(1)) simp_all
  show ?case
    using IH m by (subst butterflyPasses.simps) (simp add: Let_def blocks mult.commute)
qed

lemma fft_impulse: "flatSpectrum c (fft (impulse 1 c, replicate 32768 0))"
proof -
  have e: "fft (impulse 1 c, replicate 32768 0)
      = butterflyPasses 2 32768 (bitReversal 32768 1 0 (impulse 1 c, replicate 32768 0))"
    by (simp add: fft_def)
  have p: "flatSpectrum c (butterflyPasses 2 32768 (blk 1 c, replicate 32768 0))"
    using butterflyPasses_copy [of 0 c] by simp
  show ?thesis unfolding e bitReversal_impulse blk_1 [symmetric] by (rule p)
qed

text \<open>
  The samples \<open>0, a, 0, ..., 0\<close>: the window leaves one entry that is not zero, and every bin
  of the spectrum has the same magnitude.
\<close>

lemma windowedInput_click:
  assumes "n \<le> 32766"
  shows "windowedInput (0 # a # replicate n 0)
     = (impulse 1 (a * hannWindow (n + 2) 1), replicate 32768 0)"
proof -
  let ?s = "0 # a # replicate n 0"
  let ?re = "map (\<lambda>i. ?s ! i * hannWindow (n + 2) i) [0..<n + 2] @ replicate (32766 - n) 0"
  have w: "windowedInput ?s = (?re, replicate 32768 0)"
    using assms by (simp add: windowedInput_def Let_def del: upt_Suc)
  have "?re = impulse 1 (a * hannWindow (n + 2) 1)"
  proof (rule nth_equalityI)
    show "length ?re = length (impulse 1 (a * hannWindow (n + 2) 1))"
      using assms by (simp del: upt_Suc)
  next
    fix k
    assume "k < length ?re"
    then have k: "k < 32768" using assms by (simp del: upt_Suc)
    consider (z) "k = 0" | (o) "k = 1" | (m) "2 \<le> k \<and> k < n + 2" | (p) "n + 2 \<le> k" by arith
    then show "?re ! k = impulse 1 (a * hannWindow (n + 2) 1) ! k"
    proof cases
      case z
      then show ?thesis by (simp add: nth_impulse nth_append del: upt_Suc)
    next
      case o
      then show ?thesis using k by (simp add: nth_impulse nth_append del: upt_Suc)
    next
      case m
      then have "k - 2 < n" by arith
      then have "replicate n (0 :: real) ! (k - 2) = 0" by (rule nth_replicate)
      moreover have "k - Suc (Suc 0) = k - 2" by simp
      then have "?s ! k = replicate n 0 ! (k - 2)" using m by (simp add: nth_Cons')
      ultimately have "?s ! k = 0" by simp
      then show ?thesis using m k by (simp add: nth_impulse nth_append del: upt_Suc)
    next
      case p
      then show ?thesis using k by (simp add: nth_impulse nth_append del: upt_Suc)
    qed
  qed
  then show ?thesis using w by simp
qed

lemma hannWindow_3: "hannWindow (Suc (Suc (Suc 0))) (Suc 0) = 1"
  by (simp add: hannWindow_def)

lemma hannWindow_16384: "hannWindow 16384 1 \<noteq> 0"
proof -
  have "cos (2 * pi / 16383) < cos 0"
    by (rule cos_monotone_0_pi) (simp_all add: field_simps)
  then show ?thesis by (simp add: hannWindow_def)
qed

lemma flat_binMagnitude:
  assumes "flatSpectrum c (re, im)" "0 \<le> k" "k < 32768"
  shows "binMagnitude re im k = \<bar>c\<bar>"
proof -
  have "nat k < 32768" using assms(2,3) by simp
  then have "re ! nat k * re ! nat k + im ! nat k * im ! nat k = c * c"
    using assms(1) by (simp add: flatSpectrum_def)
  then show ?thesis by (simp add: binMagnitude_def)
qed

lemma peakLoop_flat_keep:
  assumes "flatSpectrum c (re, im)"
  shows "0 \<le> i \<Longrightarrow> maxBin \<le> 16383 \<Longrightarrow> peakLoop re im i maxBin (c * c, k0) = (c * c, k0)"
proof (induction "nat (maxBin + 1 - i)" arbitrary: i)
  case 0
  then have "\<not> i \<le> maxBin" by simp
  then show ?case by (subst peakLoop.simps) simp
next
  case (Suc d)
  then have le: "i \<le> maxBin" by simp
  have len: "length re = 32768" "length im = 32768" using assms by (simp_all add: flatSpectrum_def)
  have n: "nat i < 32768" using le Suc.prems by simp
  then have mag: "re ! nat i * re ! nat i + im ! nat i * im ! nat i = c * c"
    using assms by (simp add: flatSpectrum_def)
  have IH: "peakLoop re im (i + 1) maxBin (c * c, k0) = (c * c, k0)"
    using Suc.hyps(2) Suc.prems by (intro Suc.hyps(1)) simp_all
  show ?case
    by (subst peakLoop.simps) (simp add: le n len mag Let_def IH Suc.prems)
qed

lemma peakLoop_flat:
  assumes "flatSpectrum c (re, im)" "c \<noteq> 0" "0 \<le> i" "i \<le> maxBin" "maxBin \<le> 16383"
  shows "peakLoop re im i maxBin (0, - 1) = (c * c, i)"
proof -
  have len: "length re = 32768" "length im = 32768" using assms(1) by (simp_all add: flatSpectrum_def)
  have n: "nat i < 32768" using assms(3-5) by simp
  then have mag: "re ! nat i * re ! nat i + im ! nat i * im ! nat i = c * c"
    using assms(1) by (simp add: flatSpectrum_def)
  have pos: "0 < c * c" using assms(2) by (auto simp: zero_less_mult_iff)
  have keep: "peakLoop re im (i + 1) maxBin (c * c, i) = (c * c, i)"
    using assms(3,5) by (intro peakLoop_flat_keep [OF assms(1)]) simp_all
  show ?thesis
    by (subst peakLoop.simps) (simp add: assms(3,4) n len mag Let_def pos keep)
qed

text \<open>The estimator on a flat spectrum: the peak is the first bin of the search range.\<close>

lemma detect_flat:
  assumes f: "flatSpectrum c (fft (windowedInput samples))" and c: "c \<noteq> 0"
    and sr: "sampleRate \<noteq> 0" and len: "length samples \<noteq> 1"
    and lo: "\<lfloor>(200 * 32768) / sampleRate\<rfloor> = b"
    and hi: "b \<le> min \<lceil>(750 * 32768) / sampleRate\<rceil> 16383"
    and b: "0 \<le> b"
  shows "0 < b \<Longrightarrow> b < 16383 \<Longrightarrow>
      detectFundamentalFrequency samples sampleRate = Some (Finite (of_int b * sampleRate / 32768))"
    and "b = 16383 \<Longrightarrow>
      detectFundamentalFrequency samples sampleRate = Some (Finite ((16383 - 1 / 2) * sampleRate / 32768))"
proof -
  obtain re im where s: "fft (windowedInput samples) = (re, im)"
    by (cases "fft (windowedInput samples)")
  have fl: "flatSpectrum c (re, im)" using f by (simp add: s)
  have pk: "peakLoop re im b (min \<lceil>(750 * 32768) / sampleRate\<rceil> 16383) (0, - 1) = (c * c, b)"
    using fl c b hi by (rule peakLoop_flat) simp
  have det: "detectFundamentalFrequency samples sampleRate
      = Some (interpolatePeak re im (c * c) b sampleRate)"
    using sr len b lo pk by (simp add: detectFundamentalFrequency_def Let_def s)
  have cur: "sqrt (c * c) = \<bar>c\<bar>" by simp
  have ac: "\<bar>c\<bar> \<noteq> 0" using c by simp
  {
    assume r: "0 < b" "b < 16383"
    have "binMagnitude re im (b - 1) = \<bar>c\<bar>" "binMagnitude re im (b + 1) = \<bar>c\<bar>"
      using r by (simp_all add: flat_binMagnitude [OF fl])
    then have "interpolatePeak re im (c * c) b sampleRate = Finite (of_int b * sampleRate / 32768)"
      using r by (simp add: interpolatePeak_def Let_def)
    then show "detectFundamentalFrequency samples sampleRate = Some (Finite (of_int b * sampleRate / 32768))"
      by (simp add: det)
  }
  {
    assume r: "b = 16383"
    have "binMagnitude re im (b - 1) = \<bar>c\<bar>"
      using r by (simp add: flat_binMagnitude [OF fl])
    then have "interpolatePeak re im (c * c) b sampleRate
        = Finite ((16383 - 1 / 2) * sampleRate / 32768)"
      using r ac by (simp add: interpolatePeak_def Let_def jsDivide_def)
    then show "detectFundamentalFrequency samples sampleRate
        = Some (Finite ((16383 - 1 / 2) * sampleRate / 32768))"
      by (simp add: det)
  }
qed

lemma bins_48000:
  "\<lfloor>(200 * 32768) / (48000 :: real)\<rfloor> = 136" "\<lceil>(750 * 32768) / (48000 :: real)\<rceil> = 512"
  by (simp_all add: floor_eq_iff ceiling_eq_iff)


lemma flat_click:
  assumes "n \<le> 32766"
  shows "flatSpectrum (a * hannWindow (n + 2) 1) (fft (windowedInput (0 # a # replicate n 0)))"
  unfolding windowedInput_click [OF assms] by (rule fft_impulse)

lemma flat_010: "flatSpectrum 1 (fft (windowedInput [0, 1, 0]))"
  using flat_click [of 1 1] by (simp add: hannWindow_3)

lemma detect_010_48000: "detectFundamentalFrequency [0, 1, 0] 48000 = Some (Finite (6375 / 32))"
  using detect_flat(1) [OF flat_010 _ _ _ bins_48000(1)] by (simp add: bins_48000)


lemma detect_click_48000:
  "detectFundamentalFrequency (0 # 0.32 # replicate 16382 0) 48000 = Some (Finite (6375 / 32))"
proof -
  have f: "flatSpectrum (0.32 * hannWindow 16384 1) (fft (windowedInput (0 # 0.32 # replicate 16382 0)))"
    using flat_click [of 16382 "0.32"] by simp
  have c: "0.32 * hannWindow 16384 1 \<noteq> 0" using hannWindow_16384 by simp
  show ?thesis
    using detect_flat(1) [OF f c _ _ bins_48000(1)] by (simp add: bins_48000)
qed

text \<open>
  The quotient of the interpolation is the one number of the estimator that could be
  Infinity or NaN, and it is for a zero divisor only; the test \<open>denom !== 0\<close> of the source
  keeps the division from that case.
\<close>

lemma jsDivide_zero: "jsDivide a 0 = NonFinite"
  by (simp add: jsDivide_def)






subsection \<open>The consensus state machine\<close>



lemma list_all_withinThreshold:
  "0 \<notin> set rs \<Longrightarrow> list_all (withinThreshold f) rs \<longleftrightarrow> (\<forall>r \<in> set rs. \<bar>r - f\<bar> / r < 0.03)"
  by (auto simp: list_all_iff withinThreshold_def)

lemma tickFrequency_loud:
  "tickFrequency (\<lambda>samples sampleRate. Some f) (replicate 32768 1) sr = Some f"
  by (simp add: tickFrequency_def selectWindow_loud)

text \<open>
  C1. In a tick that does its work (the hook is not locked and 350 ms have passed), with an
  estimate \<open>f\<close> that is not zero and that the validator, if there is one, accepts: \<open>f\<close> is
  consistent exactly when the buffer is empty or every reading \<open>r\<close> in it has
  \<open>|r - f| / r < 0.03\<close>; a consistent \<open>f\<close> is appended, and otherwise the buffer becomes the
  single reading \<open>f\<close>. The buffer holds no zero, as in every reachable state
  (\<open>reachable_hookInv\<close> below).
\<close>

theorem tick_consensus_update:
  assumes "\<not> lockedRef h" and "now - lastDetectionRef h \<ge> 350"
    and "tickFrequency detect buf sr = Some f" and "f \<noteq> 0"
    and "validateRef h = None \<or> (\<exists>v. validateRef h = Some v \<and> v f)"
    and "0 \<notin> set (lockReadingsRef h)"
  shows "lockReadingsRef (tick detect now buf sr h) =
     (if lockReadingsRef h = [] \<or> (\<forall>r \<in> set (lockReadingsRef h). \<bar>r - f\<bar> / r < 0.03)
      then lockReadingsRef h @ [f] else [f])"
  using assms
  by (auto simp: tick_def Let_def list_all_withinThreshold)

theorem tick_consensus_update_witness:
  "lockReadingsRef (tick (\<lambda>samples sampleRate. Some 442) 1000 (replicate 32768 1) 48000
      (initialHook\<lparr>lockReadingsRef := [440, 441]\<rparr>)) = [440, 441, 442] \<and>
   lockReadingsRef (tick (\<lambda>samples sampleRate. Some 500) 1000 (replicate 32768 1) 48000
      (initialHook\<lparr>lockReadingsRef := [440, 441]\<rparr>)) = [500]"
proof -
  let ?h = "initialHook\<lparr>lockReadingsRef := [440, 441]\<rparr>"
  have a: "\<not> lockedRef ?h" "1000 - lastDetectionRef ?h \<ge> 350"
    "validateRef ?h = None \<or> (\<exists>v. validateRef ?h = Some v \<and> v f)"
    "0 \<notin> set (lockReadingsRef ?h)" for f
    by (simp_all add: initialHook_def)
  have r: "lockReadingsRef ?h = [440, 441]" by simp
  have "lockReadingsRef (tick (\<lambda>samples sampleRate. Some 442) 1000 (replicate 32768 1) 48000 ?h)
      = [440, 441, 442]"
    using tick_consensus_update [OF a(1) a(2) tickFrequency_loud _ a(3) a(4), of 442 48000]
    by (simp add: r)
  moreover have "lockReadingsRef (tick (\<lambda>samples sampleRate. Some 500) 1000 (replicate 32768 1) 48000 ?h)
      = [500]"
    using tick_consensus_update [OF a(1) a(2) tickFrequency_loud _ a(3) a(4), of 500 48000]
    by (simp add: r)
  ultimately show ?thesis by simp
qed

text \<open>
  Four readings, then an outlier: the buffer restarts with the outlier alone, three more
  consistent readings do not lock, and the fourth locks on the outlier and the four.
\<close>

lemma tick_loud_step:
  "tick (\<lambda>samples sampleRate. Some f) now (replicate 32768 1) 48000 h =
     (if lockedRef h then h\<lparr>rafPending := None\<rparr>
      else if now - lastDetectionRef h \<ge> 350
      then (if f = 0 then h\<lparr>lastDetectionRef := now, rafPending := Some 48000\<rparr>
            else if (case validateRef h of None \<Rightarrow> False | Some validate \<Rightarrow> \<not> validate f)
            then h\<lparr>lastDetectionRef := now, state := (state h)\<lparr>frequency := Some (round1 f)\<rparr>,
                   rafPending := Some 48000\<rparr>
            else let readings = (if lockReadingsRef h = [] \<or> list_all (withinThreshold f) (lockReadingsRef h)
                                 then lockReadingsRef h @ [f] else [f])
                 in if length readings \<ge> 5
                    then h\<lparr>lastDetectionRef := now, lockReadingsRef := readings, lockedRef := True,
                           state := \<lparr>status = Locked,
                                      frequency = Some (round1 (foldl (+) 0 readings / real (length readings))),
                                      lockReadings = readings, error = None\<rparr>,
                           rafPending := None\<rparr>
                    else h\<lparr>lastDetectionRef := now, lockReadingsRef := readings,
                           state := (state h)\<lparr>frequency := Some (round1 f), lockReadings := readings\<rparr>,
                           rafPending := Some 48000\<rparr>)
      else h\<lparr>rafPending := Some 48000\<rparr>)"
  by (simp add: tick_def tickFrequency_loud Let_def)

lemma outlier_reset_example:
  "lockReadingsRef (feed [440, 441, 440, 441, 500] 1000 initialHook) = [500]"
  "\<not> lockedRef (feed [440, 441, 440, 441, 500, 501, 502, 501] 1000 initialHook)"
  "lockReadingsRef (feed [440, 441, 440, 441, 500, 501, 502, 501] 1000 initialHook) = [500, 501, 502, 501]"
  "status (state (feed [440, 441, 440, 441, 500, 501, 502, 501, 500] 1000 initialHook)) = Locked"
  "lockReadings (state (feed [440, 441, 440, 441, 500, 501, 502, 501, 500] 1000 initialHook))
     = [500, 501, 502, 501, 500]"
  by (simp_all add: tick_loud_step initialHook_def withinThreshold_def Let_def)



text \<open>
  The buffer \<open>clickBuf\<close>: the scan selects the offset 16384, where the block of 4096 samples
  has the root mean square 0.005, and the estimator finds 199.21875 Hz in the window that
  starts there.
\<close>

lemma estimate_click: "estimate (0 # 0.32 # replicate 16382 0) 48000 = Some (6375 / 32)"
  using detect_click_48000 by (simp add: estimate_def)

lemma sqrt_click: "sqrt (1 / 40000) = 1 / 200" "sqrt (1 / 160000) = 1 / 400"
  by (rule real_sqrt_unique; simp add: power2_eq_square)+

lemma selectWindow_click: "selectWindow clickBuf = (1 / 200, 16384)"
  by (simp add: selectWindow_def clickBuf_def scanWindows.simps chunkRms_def
      sum_list_replicate sqrt_click)

lemma windowRms_click: "windowRms clickBuf 16384 = 1 / 400"
  by (simp add: windowRms_def clickBuf_def sum_list_replicate sqrt_click)

lemma tickFrequency_click: "tickFrequency estimate clickBuf 48000 = Some (6375 / 32)"
proof -
  have len: "length clickBuf = 32768" by (simp add: clickBuf_def)
  have win: "take 16384 (drop 16384 clickBuf) = 0 # 0.32 # replicate 16382 0"
    by (simp add: clickBuf_def)
  show ?thesis
    using estimate_click win by (simp add: tickFrequency_def selectWindow_click Let_def len)
qed

text \<open>
  C4 as the specification states it compares the root mean square of the selected window
  with the threshold. On \<open>clickBuf\<close> the window of 16384 samples that the tick hands to the
  estimator has the root mean square 0.0025, below 0.004; the value the tick compares is
  that of the selected block of 4096 samples, 0.005, so the estimator runs, and the
  estimate is appended to the reading buffer and shown.
\<close>

theorem tick_quiet_window_estimated:
  "length clickBuf = 32768 \<and>
   selectWindow clickBuf = (0.005, 16384) \<and>
   max 0 (min 16384 (int (length clickBuf) - 16384)) = 16384 \<and>
   windowRms clickBuf 16384 = 0.0025 \<and>
   windowRms clickBuf 16384 < 0.004 \<and>
   tickFrequency estimate clickBuf 48000 = Some 199.21875 \<and>
   lockReadingsRef (tick estimate 1000 clickBuf 48000 (initialHook\<lparr>lockReadingsRef := [199, 200]\<rparr>))
     = [199, 200, 199.21875] \<and>
   state (tick estimate 1000 clickBuf 48000 (initialHook\<lparr>lockReadingsRef := [199, 200]\<rparr>))
     \<noteq> state (initialHook\<lparr>lockReadingsRef := [199, 200]\<rparr>)"
proof -
  have len: "length clickBuf = 32768" by (simp add: clickBuf_def)
  have t: "tickFrequency estimate clickBuf 48000 = Some (6375 / 32)" by (rule tickFrequency_click)
  have "lockReadingsRef (tick estimate 1000 clickBuf 48000 (initialHook\<lparr>lockReadingsRef := [199, 200]\<rparr>))
     = [199, 200, 6375 / 32]"
    by (simp add: tick_def t Let_def initialHook_def withinThreshold_def)
  moreover have "state (tick estimate 1000 clickBuf 48000 (initialHook\<lparr>lockReadingsRef := [199, 200]\<rparr>))
     \<noteq> state (initialHook\<lparr>lockReadingsRef := [199, 200]\<rparr>)"
    by (simp add: tick_def t Let_def initialHook_def withinThreshold_def)
  ultimately show ?thesis
    using t by (simp add: len selectWindow_click windowRms_click)
qed

text \<open>
  C4, amended. In a tick in which the block of 4096 samples at the selected offset has a
  root mean square below 0.004 no estimate is produced, and the reading buffer, the lock
  and the whole reported state are unchanged.
\<close>

theorem tick_silence:
  assumes "chunkRms buf (snd (selectWindow buf)) < 0.004"
  shows "tickFrequency detect buf sr = None \<and>
     lockReadingsRef (tick detect now buf sr h) = lockReadingsRef h \<and>
     state (tick detect now buf sr h) = state h \<and>
     lockedRef (tick detect now buf sr h) = lockedRef h"
proof -
  obtain r b where s: "selectWindow buf = (r, b)" by (cases "selectWindow buf")
  from selectWindow_rms [OF s] assms have "r < 0.004" by (simp add: s)
  then have "tickFrequency detect buf sr = None"
    by (simp add: tickFrequency_def Let_def s)
  then show ?thesis by (simp add: tick_def Let_def)
qed

theorem tick_silence_witness:
  "chunkRms (replicate 32768 0) (snd (selectWindow (replicate 32768 0))) < 0.004 \<and>
   tickFrequency estimate (replicate 32768 0) 48000 = None \<and>
   lockReadingsRef (tick estimate 1000 (replicate 32768 0) 48000
      (initialHook\<lparr>lockReadingsRef := [440, 441]\<rparr>)) = [440, 441]"
proof -
  have a: "chunkRms (replicate 32768 0) (snd (selectWindow (replicate 32768 0))) < 0.004"
    by (simp add: selectWindow_silent chunkRms_def sum_list_replicate)
  show ?thesis
    using a tick_silence [OF a, of estimate 48000 1000
        "initialHook\<lparr>lockReadingsRef := [440, 441]\<rparr>"]
    by simp
qed

lemma tick_quiet_buffer:
  assumes "\<forall>x \<in> set buf. \<bar>x\<bar> \<le> a" and "0 \<le> a" and "a < 0.004"
  shows "tickFrequency detect buf sr = None"
proof -
  have "fst (selectWindow buf) < 0.004"
    using selectWindow_quiet [OF assms(1,2)] assms(3) by simp
  then show ?thesis
    by (cases "selectWindow buf") (simp add: tickFrequency_def Let_def)
qed

text \<open>
  C6. In a tick that does its work, an estimate that the configured validator rejects is
  shown (the frequency of the reported state is the estimate rounded to one decimal
  place), while the reading buffer, its reported copy, the status and the lock are
  unchanged.
\<close>

theorem tick_rejected_estimate:
  assumes "\<not> lockedRef h" and "now - lastDetectionRef h \<ge> 350"
    and "tickFrequency detect buf sr = Some f" and "f \<noteq> 0"
    and "validateRef h = Some v" and "\<not> v f"
  shows "frequency (state (tick detect now buf sr h)) = Some (round1 f) \<and>
     lockReadingsRef (tick detect now buf sr h) = lockReadingsRef h \<and>
     lockReadings (state (tick detect now buf sr h)) = lockReadings (state h) \<and>
     status (state (tick detect now buf sr h)) = status (state h) \<and>
     \<not> lockedRef (tick detect now buf sr h)"
  using assms by (simp add: tick_def Let_def)

theorem tick_rejected_estimate_witness:
  "frequency (state (tick (\<lambda>samples sampleRate. Some 442.26) 1000 (replicate 32768 1) 48000
      (initialHook\<lparr>lockReadingsRef := [440, 441], validateRef := Some (\<lambda>f. f < 400)\<rparr>)))
     = Some 442.3 \<and>
   lockReadingsRef (tick (\<lambda>samples sampleRate. Some 442.26) 1000 (replicate 32768 1) 48000
      (initialHook\<lparr>lockReadingsRef := [440, 441], validateRef := Some (\<lambda>f. f < 400)\<rparr>))
     = [440, 441]"
proof -
  let ?h = "initialHook\<lparr>lockReadingsRef := [440, 441], validateRef := Some (\<lambda>f. f < 400)\<rparr>"
  have a: "\<not> lockedRef ?h" "1000 - lastDetectionRef ?h \<ge> 350"
    "validateRef ?h = Some (\<lambda>f. f < 400)"
    by (simp_all add: initialHook_def)
  have fl: "\<lfloor>44231 / 10 :: real\<rfloor> = 4423" by (simp add: floor_eq_iff)
  have rd: "round1 (22113 / 50) = 4423 / 10"
    by (simp add: round1_def js_round_def fl)
  show ?thesis
    using tick_rejected_estimate [OF a(1) a(2) tickFrequency_loud _ a(3), of "442.26" 48000]
    by (simp add: rd)
qed

text \<open>
  The invariant holds in every reachable state: at most five readings, fewer than five
  unless locked, and no reading that is zero.
\<close>

lemma tick_hookInv: "hookInv h \<Longrightarrow> hookInv (tick detect now buf sr h)"
  by (auto simp: hookInv_def tick_def Let_def split: option.splits)

lemma reachable_hookInv: "reachable detect h \<Longrightarrow> hookInv h"
proof (induction rule: reachable.induct)
  case reach_initial
  show ?case by (simp add: hookInv_def initialHook_def)
next
  case (reach_tick h sampleRate now timeDomainBuf)
  then show ?case by (simp add: tick_hookInv)
next
  case (reach_stop h)
  show ?case by (simp add: hookInv_def stop_def stopLoop_def)
next
  case (reach_startRequest h validate hasGetUserMedia)
  show ?case
    by (simp add: hookInv_def startRequest_def Let_def stop_def stopLoop_def split: option.split)
next
  case (reach_startGranted h sampleRate)
  show ?case by (simp add: hookInv_def startGranted_def startLoop_def stopLoop_def)
next
  case (reach_startFailed h stage sampleRate message)
  then show ?case by (simp add: hookInv_def startFailed_def Let_def)
next
  case (reach_reset h)
  show ?case
    by (simp add: hookInv_def reset_def Let_def startLoop_def stopLoop_def split: option.split)
qed

text \<open>
  C9. In every reachable state of the hook the reading buffer holds at most five readings,
  and so does the copy of it in the reported state.
\<close>

theorem lock_buffer_bounded:
  "reachable detect h \<Longrightarrow>
     length (lockReadingsRef h) \<le> 5 \<and> length (lockReadings (state h)) \<le> 5"
  using reachable_hookInv [of detect h] by (simp add: hookInv_def)

theorem lock_buffer_bounded_witness:
  "reachable (\<lambda>samples sampleRate. Some 440)
     (tick (\<lambda>samples sampleRate. Some 440) 1000 (replicate 32768 1) 48000
        (startGranted 48000 (startRequest None True initialHook))) \<and>
   length (lockReadingsRef
     (tick (\<lambda>samples sampleRate. Some 440) 1000 (replicate 32768 1) 48000
        (startGranted 48000 (startRequest None True initialHook)))) \<le> 5 \<and>
   length (lockReadings (state
     (tick (\<lambda>samples sampleRate. Some 440) 1000 (replicate 32768 1) 48000
        (startGranted 48000 (startRequest None True initialHook))))) \<le> 5"
proof -
  let ?d = "\<lambda>(samples :: real list) (sampleRate :: real). Some (440 :: real)"
  let ?g = "startGranted 48000 (startRequest None True initialHook)"
  have "reachable ?d ?g"
    by (intro reach_startGranted reach_startRequest reach_initial)
  moreover have "rafPending ?g = Some 48000"
    by (simp add: startGranted_def startLoop_def stopLoop_def)
  ultimately have r: "reachable ?d (tick ?d 1000 (replicate 32768 1) 48000 ?g)"
    by (rule reach_tick)
  from r lock_buffer_bounded [OF r] show ?thesis by simp
qed

end
